theory Spec2Isabelle
  imports Main "HOL-Library.Sublist"
begin

section \<open>Python values\<close>

text \<open>
  The functions of \<^verbatim>\<open>web_app.py\<close> that post-process a retrieval response are written
  against untyped values: every \<^verbatim>\<open>.get\<close>, every \<^verbatim>\<open>or\<close> and every \<^verbatim>\<open>isinstance\<close> test
  depends on the run-time type of what it meets. The model therefore works on a datatype of
  Python values: \<^verbatim>\<open>None\<close>, booleans, unbounded integers, strings, lists and dictionaries,
  nested at will. Floats, bytes, tuples and user classes are left out.

  A Python \<^verbatim>\<open>str\<close> is a sequence of Unicode code points; the formatter itself writes
  U+2029 and U+2028, which do not fit a byte. A string is therefore a list of code points
  (natural numbers), and \<open>asc\<close> turns an ASCII literal into one.

  A dictionary is an association list from keys to values, in insertion order (a
  well-formed one has pairwise different keys; a lookup takes the first match).
\<close>

type_synonym pystr = "nat list"

datatype pyval =
    PNone
  | PBool bool
  | PInt int
  | PStr pystr
  | PList "pyval list"
  | PDict "(pyval \<times> pyval) list"

datatype exc = AttributeError | TypeError | ValueError | IndexError

definition asc :: "string \<Rightarrow> pystr" where
  "asc s = map of_char s"

text \<open>Truth value testing: \<^verbatim>\<open>None\<close>, \<^verbatim>\<open>False\<close>, zero and empty containers are false.\<close>

fun py_truthy :: "pyval \<Rightarrow> bool" where
  "py_truthy PNone = False"
| "py_truthy (PBool b) = b"
| "py_truthy (PInt i) = (i \<noteq> 0)"
| "py_truthy (PStr s) = (s \<noteq> [])"
| "py_truthy (PList xs) = (xs \<noteq> [])"
| "py_truthy (PDict kvs) = (kvs \<noteq> [])"

text \<open>\<^verbatim>\<open>a or b\<close> on two values that are already computed.\<close>

definition py_or :: "pyval \<Rightarrow> pyval \<Rightarrow> pyval" where
  "py_or a b = (if py_truthy a then a else b)"

text \<open>
  \<^verbatim>\<open>x.get(key, default)\<close> with a string key: only a dictionary has the method; on any
  other value the attribute lookup raises \<^verbatim>\<open>AttributeError\<close>.
\<close>

fun py_get :: "pyval \<Rightarrow> pystr \<Rightarrow> pyval \<Rightarrow> exc + pyval" where
  "py_get (PDict kvs) k d = (case map_of kvs (PStr k) of None \<Rightarrow> Inr d | Some v \<Rightarrow> Inr v)"
| "py_get _ k d = Inl AttributeError"

text \<open>
  What a \<^verbatim>\<open>for\<close> loop or \<^verbatim>\<open>list.extend\<close> draws from a value: the elements of a list, the
  one-character strings of a string, the keys of a dictionary; anything else is not
  iterable.
\<close>

fun py_iter :: "pyval \<Rightarrow> exc + pyval list" where
  "py_iter (PList xs) = Inr xs"
| "py_iter (PStr s) = Inr (map (\<lambda>c. PStr [c]) s)"
| "py_iter (PDict kvs) = Inr (map fst kvs)"
| "py_iter _ = Inl TypeError"

section \<open>String methods\<close>

text \<open>
  \<^verbatim>\<open>str.isspace\<close> of one code point, which is also the set that \<^verbatim>\<open>lstrip()\<close> and
  \<^verbatim>\<open>rstrip()\<close> remove: the ASCII controls 9 to 13 and 28 to 32, U+0085, U+00A0, U+1680,
  U+2000 to U+200A, U+2028, U+2029, U+202F, U+205F and U+3000.
\<close>

definition py_isspace :: "nat \<Rightarrow> bool" where
  "py_isspace c \<longleftrightarrow>
     (9 \<le> c \<and> c \<le> 13) \<or> (28 \<le> c \<and> c \<le> 32) \<or> c = 133 \<or> c = 160 \<or> c = 5760 \<or>
     (8192 \<le> c \<and> c \<le> 8202) \<or> c = 8232 \<or> c = 8233 \<or> c = 8239 \<or> c = 8287 \<or> c = 12288"

definition py_lstrip :: "pystr \<Rightarrow> pystr" where
  "py_lstrip s = dropWhile py_isspace s"

definition py_rstrip :: "pystr \<Rightarrow> pystr" where
  "py_rstrip s = rev (dropWhile py_isspace (rev s))"

text \<open>\<^verbatim>\<open>sub in s\<close> for strings.\<close>

fun py_in :: "pystr \<Rightarrow> pystr \<Rightarrow> bool" where
  "py_in sub [] = (sub = [])"
| "py_in sub (c # cs) = (prefix sub (c # cs) \<or> py_in sub cs)"

text \<open>
  \<^verbatim>\<open>s.replace(old, new)\<close>: the occurrences of \<^verbatim>\<open>old\<close> are found from the left and do not
  overlap. \<open>replace_ne\<close> is the scan for a non-empty \<^verbatim>\<open>old\<close>; an empty \<^verbatim>\<open>old\<close> matches
  before every character and at the end.
\<close>

fun replace_ne :: "pystr \<Rightarrow> pystr \<Rightarrow> pystr \<Rightarrow> pystr" where
  "replace_ne old new [] = []"
| "replace_ne old new (c # cs) =
     (if prefix old (c # cs) then new @ replace_ne old new (drop (length old - 1) cs)
      else c # replace_ne old new cs)"

definition py_replace :: "pystr \<Rightarrow> pystr \<Rightarrow> pystr \<Rightarrow> pystr" where
  "py_replace old new s =
     (if old = [] then new @ concat (map (\<lambda>c. c # new) s) else replace_ne old new s)"

text \<open>\<^verbatim>\<open>sep.join(xs)\<close> on a list of strings.\<close>

fun py_join :: "pystr \<Rightarrow> pystr list \<Rightarrow> pystr" where
  "py_join sep [] = []"
| "py_join sep [x] = x"
| "py_join sep (x # y # ys) = x @ sep @ py_join sep (y # ys)"

section \<open>The answer formatter\<close>

text \<open>
  \<^verbatim>\<open>_format_one_line_bullets\<close>: a value that is not a string, or is the empty string, is
  returned as it is; a text with the separator \<^verbatim>\<open>" - "\<close> has every separator replaced by
  a newline and \<^verbatim>\<open>"- "\<close>, and gets a leading \<^verbatim>\<open>"- "\<close> (in place of its leading whitespace)
  unless it has one once left-stripped.
\<close>

definition format_one_line_bullets :: "pyval \<Rightarrow> pyval" where
  "format_one_line_bullets text =
     (case text of
        PStr s \<Rightarrow>
          if s = [] then text
          else if py_in (asc '' - '') s then
            (let formatted = py_replace (asc '' - '') (10 # asc ''- '') s in
             if \<not> prefix (asc ''- '') (py_lstrip formatted)
             then PStr (asc ''- '' @ py_lstrip formatted)
             else PStr formatted)
          else text
      | _ \<Rightarrow> text)"

text \<open>\<^verbatim>\<open>_remove_bold_markdown\<close>: every \<^verbatim>\<open>**\<close> of a non-empty string is deleted.\<close>

definition remove_bold_markdown :: "pyval \<Rightarrow> pyval" where
  "remove_bold_markdown text =
     (case text of
        PStr s \<Rightarrow> if s = [] then text else PStr (py_replace (asc ''**'') [] s)
      | _ \<Rightarrow> text)"

text \<open>
  \<^verbatim>\<open>', '.join(pdf_filenames)\<close>: the argument is iterated, and an item that is not a string
  raises \<^verbatim>\<open>TypeError\<close>.
\<close>

fun str_items :: "pyval list \<Rightarrow> exc + pystr list" where
  "str_items [] = Inr []"
| "str_items (PStr s # vs) =
     (case str_items vs of Inl e \<Rightarrow> Inl e | Inr ss \<Rightarrow> Inr (s # ss))"
| "str_items (_ # vs) = Inl TypeError"

definition join_value :: "pystr \<Rightarrow> pyval \<Rightarrow> exc + pystr" where
  "join_value sep v =
     (case py_iter v of
        Inl e \<Rightarrow> Inl e
      | Inr items \<Rightarrow> (case str_items items of Inl e \<Rightarrow> Inl e | Inr ss \<Rightarrow> Inr (py_join sep ss)))"

text \<open>U+2029 (paragraph separator) followed by U+2028 (line separator).\<close>

definition paragraph_break :: pystr where
  "paragraph_break = [8233, 8232]"

text \<open>
  \<^verbatim>\<open>_finalize_output\<close>: \<^verbatim>\<open>body_text or ""\<close>, bullets, bold removal, then \<^verbatim>\<open>rstrip\<close>, a
  method only a string has; the sources paragraph when \<^verbatim>\<open>pdf_filenames\<close> is true, and
  one line feed at the end.
\<close>

definition finalize_output :: "pyval \<Rightarrow> pyval \<Rightarrow> exc + pystr" where
  "finalize_output body_text pdf_filenames =
     (case remove_bold_markdown (format_one_line_bullets (py_or body_text (PStr []))) of
        PStr s \<Rightarrow>
          (let text = py_rstrip s in
           if py_truthy pdf_filenames then
             (case join_value (asc '', '') pdf_filenames of
                Inl e \<Rightarrow> Inl e
              | Inr joined \<Rightarrow> Inr (text @ paragraph_break @ asc ''Sources: '' @ joined @ [10]))
           else Inr (text @ [10]))
      | _ \<Rightarrow> Inl AttributeError)"

text \<open>
  The text \<^verbatim>\<open>_format_one_line_bullets\<close> works on once the separators are replaced
  (its local \<^verbatim>\<open>formatted\<close> before the test for a leading bullet), and the paragraph
  \<^verbatim>\<open>_finalize_output\<close> appends for a non-empty list of names.
\<close>

definition bullets_replaced :: "pystr \<Rightarrow> pystr" where
  "bullets_replaced s = py_replace (asc '' - '') (10 # asc ''- '') s"

definition sources_par :: "pystr list \<Rightarrow> pystr" where
  "sources_par xs = paragraph_break @ asc ''Sources: '' @ py_join (asc '', '') xs @ [10]"

section \<open>The citation extractors\<close>

subsection \<open>From the response to the list of references\<close>

text \<open>\<^verbatim>\<open>d.get(k, {}) or {}\<close>.\<close>

definition get_or_empty :: "pyval \<Rightarrow> pystr \<Rightarrow> exc + pyval" where
  "get_or_empty d k =
     (case py_get d k (PDict []) of Inl e \<Rightarrow> Inl e | Inr v \<Rightarrow> Inr (py_or v (PDict [])))"

text \<open>
  The sequence shape: \<^verbatim>\<open>for c in raw_citations:
  retrieved_refs.extend((c or {}).get("retrievedReferences", []))\<close>.
\<close>

fun extend_refs :: "pyval list \<Rightarrow> pyval list \<Rightarrow> exc + pyval list" where
  "extend_refs [] refs = Inr refs"
| "extend_refs (c # cs) refs =
     (case py_get (py_or c (PDict [])) (asc ''retrievedReferences'') (PList []) of
        Inl e \<Rightarrow> Inl e
      | Inr v \<Rightarrow>
          (case py_iter v of Inl e \<Rightarrow> Inl e | Inr items \<Rightarrow> extend_refs cs (refs @ items)))"

text \<open>
  Both extractors start with the same lines: read \<^verbatim>\<open>citations\<close>, take the references of
  the mapping shape or of the sequence shape, nothing for any other type, and iterate over
  the result. An exception here leaves the extractor with no entry at all.
\<close>

definition retrieved_refs :: "pyval \<Rightarrow> exc + pyval list" where
  "retrieved_refs rag_response =
     (case py_get (py_or rag_response (PDict [])) (asc ''citations'') (PList []) of
        Inl e \<Rightarrow> Inl e
      | Inr raw_citations \<Rightarrow>
          (case raw_citations of
             PDict kvs \<Rightarrow>
               (case py_get raw_citations (asc ''retrievedReferences'') (PList []) of
                  Inl e \<Rightarrow> Inl e
                | Inr v \<Rightarrow> py_iter v)
           | PList cs \<Rightarrow> extend_refs cs []
           | _ \<Rightarrow> Inr []))"

subsection \<open>Names from a location\<close>

text \<open>
  \<^verbatim>\<open>location = (ref or {}).get("location", {}) or {}\<close>, the two lookups below it, and
  \<^verbatim>\<open>s3_uri or web_url or ""\<close>.
\<close>

definition location_uri :: "pyval \<Rightarrow> exc + pyval" where
  "location_uri ref =
     (case get_or_empty (py_or ref (PDict [])) (asc ''location'') of
        Inl e \<Rightarrow> Inl e
      | Inr location \<Rightarrow>
     (case get_or_empty location (asc ''s3Location'') of
        Inl e \<Rightarrow> Inl e
      | Inr s3 \<Rightarrow>
     (case py_get s3 (asc ''uri'') PNone of
        Inl e \<Rightarrow> Inl e
      | Inr s3_uri \<Rightarrow>
     (case get_or_empty location (asc ''webLocation'') of
        Inl e \<Rightarrow> Inl e
      | Inr web \<Rightarrow>
     (case py_get web (asc ''url'') PNone of
        Inl e \<Rightarrow> Inl e
      | Inr web_url \<Rightarrow> Inr (py_or (py_or s3_uri web_url) (PStr [])))))))"

text \<open>
  \<^verbatim>\<open>os.path.basename\<close> of the POSIX path module, \<^verbatim>\<open>p[p.rfind('/') + 1:]\<close>: the text
  after the last \<^verbatim>\<open>/\<close>, and \<^verbatim>\<open>TypeError\<close> for an argument that is not a string.
\<close>

definition os_path_basename :: "pyval \<Rightarrow> exc + pystr" where
  "os_path_basename p =
     (case p of
        PStr s \<Rightarrow> Inr (rev (takeWhile (\<lambda>c. c \<noteq> 47) (rev s)))
      | _ \<Rightarrow> Inl TypeError)"

text \<open>\<^verbatim>\<open>s.split(sep)\<close>: an empty separator is a \<^verbatim>\<open>ValueError\<close>.\<close>

fun split_ne :: "pystr \<Rightarrow> pystr \<Rightarrow> pystr \<Rightarrow> pystr list" where
  "split_ne sep cur [] = [cur]"
| "split_ne sep cur (c # cs) =
     (if prefix sep (c # cs) then cur # split_ne sep [] (drop (length sep - 1) cs)
      else split_ne sep (cur @ [c]) cs)"

definition py_split :: "pystr \<Rightarrow> pystr \<Rightarrow> exc + pystr list" where
  "py_split s sep = (if sep = [] then Inl ValueError else Inr (split_ne sep [] s))"

text \<open>\<^verbatim>\<open>os.path.basename(candidate).split("?")[0]\<close>.\<close>

definition basename_before_query :: "pyval \<Rightarrow> exc + pyval" where
  "basename_before_query u =
     (case os_path_basename u of
        Inl e \<Rightarrow> Inl e
      | Inr b \<Rightarrow>
          (case py_split b (asc ''?'') of
             Inl e \<Rightarrow> Inl e
           | Inr parts \<Rightarrow> (case parts of [] \<Rightarrow> Inl IndexError | x # _ \<Rightarrow> Inr (PStr x))))"

text \<open>The inner \<^verbatim>\<open>try\<close>: on any exception the name is the candidate itself.\<close>

definition name_from_uri :: "pyval \<Rightarrow> pyval" where
  "name_from_uri u = (case basename_before_query u of Inl e \<Rightarrow> u | Inr n \<Rightarrow> n)"

subsection \<open>De-duplication\<close>

text \<open>
  \<^verbatim>\<open>t not in seen\<close> hashes \<^verbatim>\<open>t\<close> first: a list or a dictionary raises \<^verbatim>\<open>TypeError\<close>.
  Among the hashable values \<^verbatim>\<open>True == 1\<close> and \<^verbatim>\<open>False == 0\<close>, with equal hashes, so a
  set holds one of them; \<open>py_key\<close> maps a value to the representative of its class, and
  \<^verbatim>\<open>seen\<close> is modelled by the set of the keys added.
\<close>

fun py_hashable :: "pyval \<Rightarrow> bool" where
  "py_hashable (PList xs) = False"
| "py_hashable (PDict kvs) = False"
| "py_hashable _ = True"

fun py_key :: "pyval \<Rightarrow> pyval" where
  "py_key (PBool b) = PInt (if b then 1 else 0)"
| "py_key v = v"

fun dedup_loop :: "pyval list \<Rightarrow> pyval set \<Rightarrow> pyval list \<Rightarrow> exc + pyval list" where
  "dedup_loop [] seen unique = Inr unique"
| "dedup_loop (t # ts) seen unique =
     (if \<not> py_hashable t then Inl TypeError
      else if py_key t \<notin> seen then dedup_loop ts (insert (py_key t) seen) (unique @ [t])
      else dedup_loop ts seen unique)"

definition dedup :: "pyval list \<Rightarrow> exc + pyval list" where
  "dedup xs = dedup_loop xs {} []"

subsection \<open>Document titles\<close>

text \<open>
  The body of the loop of \<^verbatim>\<open>_extract_document_titles_from_citations\<close> up to the value
  of \<^verbatim>\<open>title\<close> that the last test sees.
\<close>

definition title_of_ref :: "pyval \<Rightarrow> exc + pyval" where
  "title_of_ref ref =
     (case get_or_empty (py_or ref (PDict [])) (asc ''metadata'') of
        Inl e \<Rightarrow> Inl e
      | Inr metadata \<Rightarrow>
     (case py_get metadata (asc ''x-amz-bedrock-kb-document-title'') PNone of
        Inl e \<Rightarrow> Inl e
      | Inr t1 \<Rightarrow>
     (case (if py_truthy t1 then Inr t1
            else py_get metadata (asc ''x-amzn-bedrock-kb-doc-title'') PNone) of
        Inl e \<Rightarrow> Inl e
      | Inr title \<Rightarrow>
          if \<not> py_truthy title then
            (case location_uri ref of
               Inl e \<Rightarrow> Inl e
             | Inr uri_or_url \<Rightarrow>
                 Inr (if py_truthy uri_or_url then name_from_uri uri_or_url else title))
          else Inr title)))"

text \<open>
  The loop inside the \<^verbatim>\<open>try\<close>: an exception ends it, and \<^verbatim>\<open>except Exception: pass\<close>
  keeps the titles appended so far. The second component records the exception swallowed.
\<close>

fun titles_loop :: "pyval list \<Rightarrow> pyval list \<Rightarrow> pyval list \<times> exc option" where
  "titles_loop [] titles = (titles, None)"
| "titles_loop (ref # refs) titles =
     (case title_of_ref ref of
        Inl e \<Rightarrow> (titles, Some e)
      | Inr title \<Rightarrow> titles_loop refs (if py_truthy title then titles @ [title] else titles))"

definition collect_titles :: "pyval \<Rightarrow> pyval list \<times> exc option" where
  "collect_titles rag_response =
     (case retrieved_refs rag_response of
        Inl e \<Rightarrow> ([], Some e)
      | Inr refs \<Rightarrow> titles_loop refs [])"

text \<open>The de-duplication is outside the \<^verbatim>\<open>try\<close>: what it raises reaches the caller.\<close>

definition extract_document_titles_from_citations :: "pyval \<Rightarrow> exc + pyval list" where
  "extract_document_titles_from_citations rag_response =
     dedup (fst (collect_titles rag_response))"

subsection \<open>PDF file names\<close>

text \<open>
  \<^verbatim>\<open>str.lower\<close> replaces each code point by its lower-case string, taken from the Unicode
  case table of the Python run time. The ASCII part of the table is written out. The rest
  of it is the parameter \<open>tbl\<close>: \<open>tbl s i c\<close> is the lower-case string of the code point
  \<open>c\<close> at position \<open>i\<close> of \<open>s\<close> (the position matters for one entry only, the capital
  sigma, which CPython lowers to one of two letters by what stands around it).
\<close>

type_synonym case_table = "pystr \<Rightarrow> nat \<Rightarrow> nat \<Rightarrow> nat list"

definition lower_cp :: "(nat \<Rightarrow> nat list) \<Rightarrow> nat \<Rightarrow> nat list" where
  "lower_cp g c = (if c < 128 then [if 65 \<le> c \<and> c \<le> 90 then c + 32 else c] else g c)"

fun lower_from :: "(nat \<Rightarrow> nat \<Rightarrow> nat list) \<Rightarrow> nat \<Rightarrow> pystr \<Rightarrow> pystr" where
  "lower_from f i [] = []"
| "lower_from f i (c # cs) = lower_cp (f i) c @ lower_from f (Suc i) cs"

definition py_lower :: "case_table \<Rightarrow> pystr \<Rightarrow> pystr" where
  "py_lower tbl s = lower_from (tbl s) 0 s"

text \<open>\<^verbatim>\<open>metadata.get(k1) or metadata.get(k2) or ... or default\<close>, left to right.\<close>

fun first_truthy :: "pyval \<Rightarrow> pystr list \<Rightarrow> pyval \<Rightarrow> exc + pyval" where
  "first_truthy d [] dflt = Inr dflt"
| "first_truthy d (k # ks) dflt =
     (case py_get d k PNone of
        Inl e \<Rightarrow> Inl e
      | Inr v \<Rightarrow> if py_truthy v then Inr v else first_truthy d ks dflt)"

definition metadata_name :: "pyval \<Rightarrow> exc + pyval" where
  "metadata_name ref =
     (case get_or_empty (py_or ref (PDict [])) (asc ''metadata'') of
        Inl e \<Rightarrow> Inl e
      | Inr metadata \<Rightarrow>
          first_truthy metadata
            [asc ''file_name'', asc ''filename'', asc ''x-amz-bedrock-kb-document-title'',
             asc ''x-amzn-bedrock-kb-doc-title'']
            (PStr []))"

text \<open>
  The body of the loop of \<^verbatim>\<open>_extract_pdf_filenames_from_citations\<close> up to the value of
  \<^verbatim>\<open>name\<close> that the filter sees: the name from the location, or from the metadata when
  that one is false.
\<close>

definition pdf_name_of_ref :: "pyval \<Rightarrow> exc + pyval" where
  "pdf_name_of_ref ref =
     (case location_uri ref of
        Inl e \<Rightarrow> Inl e
      | Inr candidate \<Rightarrow>
          (let name = (if py_truthy candidate then name_from_uri candidate else PStr []) in
           if \<not> py_truthy name then metadata_name ref else Inr name))"

text \<open>\<^verbatim>\<open>name and name.lower().endswith(".pdf")\<close>: only a string has \<^verbatim>\<open>lower\<close>.\<close>

definition is_pdf_name :: "case_table \<Rightarrow> pyval \<Rightarrow> exc + bool" where
  "is_pdf_name tbl name =
     (if \<not> py_truthy name then Inr False
      else (case name of
              PStr s \<Rightarrow> Inr (suffix (asc ''.pdf'') (py_lower tbl s))
            | _ \<Rightarrow> Inl AttributeError))"

fun filenames_loop ::
  "case_table \<Rightarrow> pyval list \<Rightarrow> pyval list \<Rightarrow> pyval list \<times> exc option" where
  "filenames_loop tbl [] filenames = (filenames, None)"
| "filenames_loop tbl (ref # refs) filenames =
     (case pdf_name_of_ref ref of
        Inl e \<Rightarrow> (filenames, Some e)
      | Inr name \<Rightarrow>
          (case is_pdf_name tbl name of
             Inl e \<Rightarrow> (filenames, Some e)
           | Inr keep \<Rightarrow>
               filenames_loop tbl refs (if keep then filenames @ [name] else filenames)))"

definition collect_filenames :: "case_table \<Rightarrow> pyval \<Rightarrow> pyval list \<times> exc option" where
  "collect_filenames tbl rag_response =
     (case retrieved_refs rag_response of
        Inl e \<Rightarrow> ([], Some e)
      | Inr refs \<Rightarrow> filenames_loop tbl refs [])"

definition extract_pdf_filenames_from_citations ::
  "case_table \<Rightarrow> pyval \<Rightarrow> exc + pyval list" where
  "extract_pdf_filenames_from_citations tbl rag_response =
     dedup (fst (collect_filenames tbl rag_response))"

section \<open>Notions of the specification\<close>

text \<open>
  The two shapes of the \<^verbatim>\<open>citations\<close> field for given references: the mapping
  \<^verbatim>\<open>{"citations": {"retrievedReferences": L}}\<close>, and the sequence of groups
  \<^verbatim>\<open>{"citations": [{"retrievedReferences": L1}, {"retrievedReferences": L2}, ...]}\<close>.
\<close>

definition refs_group :: "pyval list \<Rightarrow> pyval" where
  "refs_group L = PDict [(PStr (asc ''retrievedReferences''), PList L)]"

definition mapping_shape :: "pyval list \<Rightarrow> pyval" where
  "mapping_shape L = PDict [(PStr (asc ''citations''), refs_group L)]"

definition sequence_shape :: "pyval list list \<Rightarrow> pyval" where
  "sequence_shape Ls = PDict [(PStr (asc ''citations''), PList (map refs_group Ls))]"

text \<open>
  Stable de-duplication, in the words of the specification: \<open>r\<close> has each distinct value
  of \<open>xs\<close> exactly once, in the order of the first occurrences in \<open>xs\<close>, and the entry kept
  is the first occurrence itself. Values are compared as Python compares them (through
  \<open>py_key\<close>). \<open>first_seen\<close> computes such a list.
\<close>

definition first_index :: "'a list \<Rightarrow> 'a \<Rightarrow> nat" where
  "first_index xs x = length (takeWhile (\<lambda>y. y \<noteq> x) xs)"

definition stable_dedup :: "pyval list \<Rightarrow> pyval list \<Rightarrow> bool" where
  "stable_dedup xs r \<longleftrightarrow>
     distinct (map py_key r) \<and>
     set (map py_key r) = set (map py_key xs) \<and>
     sorted_wrt (\<lambda>a b. first_index (map py_key xs) (py_key a) < first_index (map py_key xs) (py_key b)) r \<and>
     (\<forall>a\<in>set r. xs ! first_index (map py_key xs) (py_key a) = a)"

fun first_seen :: "pyval list \<Rightarrow> pyval list" where
  "first_seen [] = []"
| "first_seen (x # xs) = x # filter (\<lambda>y. py_key y \<noteq> py_key x) (first_seen xs)"

text \<open>
  The parts of a URI the specification names: the query string starts at the first
  question mark; the URI with the query string removed is the text before it; the final
  path segment is the last of the pieces between the slashes of what is left.
\<close>

definition strip_query :: "pystr \<Rightarrow> pystr" where
  "strip_query u = takeWhile (\<lambda>c. c \<noteq> 63) u"

definition query_part :: "pystr \<Rightarrow> pystr" where
  "query_part u = dropWhile (\<lambda>c. c \<noteq> 63) u"

definition final_path_segment :: "pystr \<Rightarrow> pystr" where
  "final_path_segment u = last (split_ne (asc ''/'') [] (strip_query u))"

section \<open>Properties of the string methods\<close>

lemma asc_sep: "asc '' - '' = [32, 45, 32]"
  by (simp add: asc_def)

lemma asc_dash: "asc ''- '' = [45, 32]"
  by (simp add: asc_def)

lemma asc_bold: "asc ''**'' = [42, 42]"
  by (simp add: asc_def)

lemma replace_ne_absent: "\<not> py_in old s \<Longrightarrow> replace_ne old new s = s"
  by (induction s) auto

lemma replace_ne_star_head:
  "prefix [42] (replace_ne [42, 42] [] s) \<Longrightarrow> prefix [42] s"
  by (cases s) (auto split: if_splits)

text \<open>Deleting the pairs of asterisks from the left leaves no pair behind.\<close>

lemma no_bold_after_replace: "\<not> py_in [42, 42] (replace_ne [42, 42] [] s)"
proof (induction "[42, 42] :: nat list" "[] :: nat list" s rule: replace_ne.induct)
  case 1
  show ?case by simp
next
  case (2 c cs)
  show ?case
  proof (cases "prefix [42, 42] (c # cs)")
    case True
    with 2 show ?thesis by simp
  next
    case False
    have "\<not> prefix [42, 42] (c # replace_ne [42, 42] [] cs)"
    proof
      assume p: "prefix [42, 42] (c # replace_ne [42, 42] [] cs)"
      then have "c = 42" and "prefix [42] (replace_ne [42, 42] [] cs)" by auto
      then have "prefix [42] cs" using replace_ne_star_head by blast
      with \<open>c = 42\<close> False show False by (cases cs) auto
    qed
    with 2 False show ?thesis by simp
  qed
qed

section \<open>Bold removal\<close>

text \<open>
  Claim C8. Bold-marker removal is idempotent: for every value, and so for every string,
  applying \<^verbatim>\<open>_remove_bold_markdown\<close> to its own result changes nothing.
\<close>

theorem remove_bold_markdown_idempotent:
  "remove_bold_markdown (remove_bold_markdown v) = remove_bold_markdown v"
proof (cases v)
  case (PStr s)
  have "replace_ne [42, 42] [] (replace_ne [42, 42] [] s) = replace_ne [42, 42] [] s"
    by (rule replace_ne_absent) (rule no_bold_after_replace)
  then show ?thesis using PStr
    by (simp add: remove_bold_markdown_def py_replace_def asc_bold)
qed (simp_all add: remove_bold_markdown_def)

section \<open>Bullets\<close>

lemma isspace_facts [simp]: "py_isspace 32" "py_isspace 10" "\<not> py_isspace 45"
  by (simp_all add: py_isspace_def)

lemma replace_sep_skip_ws:
  "\<forall>c\<in>set w. py_isspace c \<Longrightarrow> y \<noteq> [] \<Longrightarrow> hd y \<noteq> 45 \<Longrightarrow>
   replace_ne [32, 45, 32] new (w @ y) = w @ replace_ne [32, 45, 32] new y"
proof (induction w)
  case Nil
  then show ?case by simp
next
  case (Cons c w)
  have "\<not> prefix [32, 45, 32] (c # w @ y)"
  proof (cases w)
    case Nil
    with Cons.prems show ?thesis by (cases y) auto
  next
    case (Cons d w')
    with Cons.prems have "py_isspace d" by simp
    then have "d \<noteq> 45" by auto
    with Cons show ?thesis by simp
  qed
  then have "replace_ne [32, 45, 32] new (c # (w @ y)) = c # replace_ne [32, 45, 32] new (w @ y)"
    by (simp only: replace_ne.simps if_False)
  with Cons show ?case by simp
qed

lemma bullets_replaced_keep_ws:
  assumes "\<not> (suffix [32] (takeWhile py_isspace s) \<and> prefix [45, 32] (py_lstrip s))"
  shows "takeWhile py_isspace (bullets_replaced s) = takeWhile py_isspace s"
proof -
  define w where "w = takeWhile py_isspace s"
  define rest where "rest = dropWhile py_isspace s"
  have s: "s = w @ rest" by (simp add: w_def rest_def)
  have ws: "\<forall>c\<in>set w. py_isspace c" unfolding w_def by (auto dest: set_takeWhileD)
  have rest_hd: "rest \<noteq> [] \<Longrightarrow> \<not> py_isspace (hd rest)"
    unfolding rest_def using hd_dropWhile by blast
  have rep_rest: "takeWhile py_isspace (replace_ne [32, 45, 32] [10, 45, 32] rest) = []"
  proof (cases rest)
    case Nil
    then show ?thesis by simp
  next
    case (Cons c cs)
    with rest_hd have "\<not> py_isspace c" by simp
    then have "c \<noteq> 32" by auto
    with Cons \<open>\<not> py_isspace c\<close> show ?thesis by simp
  qed
  have "replace_ne [32, 45, 32] [10, 45, 32] (w @ rest) = w @ replace_ne [32, 45, 32] [10, 45, 32] rest"
  proof (cases "w = []")
    case True
    then show ?thesis by simp
  next
    case False
    then have w: "w = butlast w @ [last w]" by simp
    have bl: "\<forall>c\<in>set (butlast w). py_isspace c" using ws by (auto dest: in_set_butlastD)
    have "py_isspace (last w)" using ws False by simp
    then have l45: "last w \<noteq> 45" by auto
    have np: "\<not> prefix [32, 45, 32] (last w # rest)"
    proof
      assume p: "prefix [32, 45, 32] (last w # rest)"
      then have "last w = 32" and "prefix [45, 32] rest" by auto
      then have "suffix [32] w" using w by (metis suffixI)
      with assms \<open>prefix [45, 32] rest\<close> show False
        by (simp add: w_def rest_def py_lstrip_def)
    qed
    have "replace_ne [32, 45, 32] [10, 45, 32] (butlast w @ (last w # rest))
          = butlast w @ replace_ne [32, 45, 32] [10, 45, 32] (last w # rest)"
      using replace_sep_skip_ws[OF bl, of "last w # rest"] l45 by simp
    also have "\<dots> = butlast w @ last w # replace_ne [32, 45, 32] [10, 45, 32] rest"
      using np by simp
    finally show ?thesis using w by (metis append.assoc append_Cons append_Nil)
  qed
  then have "bullets_replaced s = w @ replace_ne [32, 45, 32] [10, 45, 32] rest"
    by (simp add: bullets_replaced_def py_replace_def asc_sep asc_dash s)
  then have "takeWhile py_isspace (bullets_replaced s) = w @ takeWhile py_isspace (replace_ne [32, 45, 32] [10, 45, 32] rest)"
    using ws by simp
  with rep_rest show ?thesis by (simp add: w_def)
qed

lemma bullets_replaced_first_sep:
  assumes "suffix [32] (takeWhile py_isspace s)" and "prefix [45, 32] (py_lstrip s)"
  shows "bullets_replaced s =
           butlast (takeWhile py_isspace s) @ [10, 45, 32] @
           replace_ne [32, 45, 32] [10, 45, 32] (drop 2 (py_lstrip s))"
proof -
  define w where "w = takeWhile py_isspace s"
  define rest where "rest = dropWhile py_isspace s"
  have s: "s = w @ rest" by (simp add: w_def rest_def)
  have ws: "\<forall>c\<in>set w. py_isspace c" unfolding w_def by (auto dest: set_takeWhileD)
  from assms(1) have w: "w = butlast w @ [32]"
    unfolding w_def by (auto simp: suffix_def)
  from assms(2) have rest: "rest = 45 # 32 # drop 2 rest"
    unfolding rest_def py_lstrip_def by (auto simp: prefix_def)
  have bl: "\<forall>c\<in>set (butlast w). py_isspace c" using ws by (auto dest: in_set_butlastD)
  have "s = butlast w @ (32 # 45 # 32 # drop 2 rest)"
    using s w rest by (metis append.assoc append_Cons append_Nil)
  then have "replace_ne [32, 45, 32] [10, 45, 32] s
        = butlast w @ replace_ne [32, 45, 32] [10, 45, 32] (32 # 45 # 32 # drop 2 rest)"
    using replace_sep_skip_ws[OF bl, of "32 # 45 # 32 # drop 2 rest"] by simp
  then show ?thesis
    by (simp add: bullets_replaced_def py_replace_def asc_sep asc_dash w_def rest_def py_lstrip_def)
qed


text \<open>
  Claim C10, as amended. For a text with the separator \<^verbatim>\<open>" - "\<close>: when the replaced
  text, left-stripped, does not start with \<^verbatim>\<open>"- "\<close>, the result is \<^verbatim>\<open>"- "\<close> followed by
  the left-stripped replaced text, so the leading whitespace is gone. Otherwise the result
  is the replaced text as it is, nothing stripped and nothing prepended. Its leading
  whitespace is that of the input, except when the input's leading whitespace ends with a
  space that is followed by \<^verbatim>\<open>"- "\<close>: that space opens the first separator and has
  become a line feed.
\<close>

theorem format_one_line_bullets_leading:
  assumes "py_in (asc '' - '') s"
  shows "(\<not> prefix (asc ''- '') (py_lstrip (bullets_replaced s)) \<longrightarrow>
            format_one_line_bullets (PStr s) = PStr (asc ''- '' @ py_lstrip (bullets_replaced s))) \<and>
         (prefix (asc ''- '') (py_lstrip (bullets_replaced s)) \<longrightarrow>
            format_one_line_bullets (PStr s) = PStr (bullets_replaced s) \<and>
            takeWhile py_isspace (bullets_replaced s) =
              (if suffix [32] (takeWhile py_isspace s) \<and> prefix (asc ''- '') (py_lstrip s)
               then butlast (takeWhile py_isspace s) @ [10]
               else takeWhile py_isspace s))"
proof -
  from assms have ne: "s \<noteq> []" by (cases s) (simp_all add: asc_def)
  have f: "format_one_line_bullets (PStr s) =
             (if \<not> prefix (asc ''- '') (py_lstrip (bullets_replaced s))
              then PStr (asc ''- '' @ py_lstrip (bullets_replaced s))
              else PStr (bullets_replaced s))"
    using assms ne by (simp add: format_one_line_bullets_def bullets_replaced_def Let_def)
  have w: "takeWhile py_isspace (bullets_replaced s) =
             (if suffix [32] (takeWhile py_isspace s) \<and> prefix (asc ''- '') (py_lstrip s)
              then butlast (takeWhile py_isspace s) @ [10]
              else takeWhile py_isspace s)"
  proof (cases "suffix [32] (takeWhile py_isspace s) \<and> prefix [45, 32] (py_lstrip s)")
    case True
    have bl: "\<forall>c\<in>set (butlast (takeWhile py_isspace s)). py_isspace c"
      by (auto dest: in_set_butlastD set_takeWhileD)
    from True have "bullets_replaced s =
           butlast (takeWhile py_isspace s) @ [10, 45, 32] @
           replace_ne [32, 45, 32] [10, 45, 32] (drop 2 (py_lstrip s))"
      by (intro bullets_replaced_first_sep) simp_all
    then have "takeWhile py_isspace (bullets_replaced s) = butlast (takeWhile py_isspace s) @ [10]"
      using bl by simp
    with True show ?thesis by (simp add: asc_dash)
  next
    case False
    then have "takeWhile py_isspace (bullets_replaced s) = takeWhile py_isspace s"
      by (rule bullets_replaced_keep_ws)
    with False show ?thesis by (simp only: asc_dash if_False)
  qed
  show ?thesis using f w by simp
qed

text \<open>
  Both cases at concrete inputs: \<^verbatim>\<open>"  intro - a"\<close> loses its two spaces, and
  \<^verbatim>\<open>"\t- a - b"\<close> keeps its tab.
\<close>

theorem format_one_line_bullets_leading_witness:
  "py_in (asc '' - '') (asc ''  intro - a'') \<and>
   \<not> prefix (asc ''- '') (py_lstrip (bullets_replaced (asc ''  intro - a''))) \<and>
   format_one_line_bullets (PStr (asc ''  intro - a'')) = PStr (asc ''- intro'' @ 10 # asc ''- a'') \<and>
   py_in (asc '' - '') (9 # asc ''- a - b'') \<and>
   prefix (asc ''- '') (py_lstrip (bullets_replaced (9 # asc ''- a - b''))) \<and>
   format_one_line_bullets (PStr (9 # asc ''- a - b'')) = PStr (9 # asc ''- a'' @ 10 # asc ''- b'') \<and>
   takeWhile py_isspace (bullets_replaced (9 # asc ''- a - b'')) = [9]"
  using format_one_line_bullets_leading [of "asc ''  intro - a''"]
        format_one_line_bullets_leading [of "9 # asc ''- a - b''"]
  by (simp add: asc_def bullets_replaced_def py_replace_def py_lstrip_def py_isspace_def)

text \<open>
  Claim C10 as stated fails at \<^verbatim>\<open>" - a"\<close>: the replaced text \<^verbatim>\<open>"\n- a"\<close> starts with
  \<^verbatim>\<open>"- "\<close> once left-stripped and is returned, and its leading whitespace is a line feed
  where the input had a space.
\<close>

theorem format_one_line_bullets_leading_counterexample:
  "py_in (asc '' - '') (asc '' - a'') \<and>
   prefix (asc ''- '') (py_lstrip (py_replace (asc '' - '') (10 # asc ''- '') (asc '' - a''))) \<and>
   format_one_line_bullets (PStr (asc '' - a'')) = PStr (10 # asc ''- a'') \<and>
   takeWhile py_isspace (asc '' - a'') = [32] \<and>
   takeWhile py_isspace (10 # asc ''- a'') = [10]"
  by (simp add: format_one_line_bullets_def asc_def py_replace_def py_lstrip_def py_isspace_def)

section \<open>Properties of the formatter\<close>

lemma py_in_sublist: "py_in sub s = sublist sub s"
  by (induction s) (simp_all add: sublist_Cons_right)

lemma bold_append:
  "sublist [42, 42] (ys @ zs) \<longleftrightarrow>
     sublist [42, 42] ys \<or> sublist [42, 42] zs \<or>
     (ys \<noteq> [] \<and> last ys = (42::nat) \<and> zs \<noteq> [] \<and> hd zs = 42)"
proof (induction ys)
  case Nil
  then show ?case by simp
next
  case (Cons y ys)
  show ?case
  proof (cases ys)
    case Nil
    then show ?thesis by (cases zs) (auto simp: sublist_Cons_right)
  next
    case (Cons y' ys')
    with Cons.IH show ?thesis by (auto simp: sublist_Cons_right)
  qed
qed

lemma rstrip_prefix: "\<exists>ws. s = py_rstrip s @ ws"
proof -
  have "rev s = takeWhile py_isspace (rev s) @ dropWhile py_isspace (rev s)" by simp
  then have "s = rev (dropWhile py_isspace (rev s)) @ rev (takeWhile py_isspace (rev s))"
    by (metis rev_append rev_rev_ident)
  then show ?thesis unfolding py_rstrip_def by blast
qed

lemma rstrip_no_bold: "\<not> sublist [42, 42] s \<Longrightarrow> \<not> sublist [42, 42] (py_rstrip s)"
  using rstrip_prefix[of s] by (metis bold_append)

lemma rstrip_last: "py_rstrip s \<noteq> [] \<Longrightarrow> \<not> py_isspace (last (py_rstrip s))"
  unfolding py_rstrip_def using hd_dropWhile[of py_isspace "rev s"]
  by (simp add: last_rev)

lemma format_is_str: "\<exists>t. format_one_line_bullets (PStr s) = PStr t"
  by (simp add: format_one_line_bullets_def Let_def)

lemma remove_bold_str:
  "\<exists>t. remove_bold_markdown (PStr s) = PStr t \<and> \<not> sublist [42, 42] t"
  using no_bold_after_replace[of s]
  by (simp add: remove_bold_markdown_def py_replace_def asc_bold py_in_sublist)

lemma str_items_strs: "str_items (map PStr xs) = Inr xs"
  by (induction xs) simp_all

lemma join_value_strs: "join_value sep (PList (map PStr xs)) = Inr (py_join sep xs)"
  by (simp add: join_value_def str_items_strs)

lemma py_or_str: "py_or (PStr s) (PStr []) = PStr s"
  by (simp add: py_or_def)

lemma finalize_shape:
  "\<exists>T. \<not> sublist [42, 42] T \<and> (T \<noteq> [] \<longrightarrow> \<not> py_isspace (last T)) \<and>
       finalize_output (PStr s) (PList (map PStr xs)) =
         Inr (if xs = [] then T @ [10] else T @ sources_par xs)"
proof -
  obtain t where t: "format_one_line_bullets (PStr s) = PStr t"
    using format_is_str by blast
  obtain u where u: "remove_bold_markdown (PStr t) = PStr u" "\<not> sublist [42, 42] u"
    using remove_bold_str by blast
  have "finalize_output (PStr s) (PList (map PStr xs)) =
          Inr (if xs = [] then py_rstrip u @ [10] else py_rstrip u @ sources_par xs)"
    by (simp add: finalize_output_def py_or_str t u join_value_strs sources_par_def)
  with u(2) show ?thesis using rstrip_no_bold rstrip_last by blast
qed

lemma finalize_none: "finalize_output PNone srcs = finalize_output (PStr []) srcs"
  by (simp add: finalize_output_def py_or_def)

lemma join_no_bold:
  "\<forall>x\<in>set xs. \<not> sublist [42, 42] x \<Longrightarrow> \<not> sublist [42, 42] (py_join [44, 32] xs)"
  by (induction "[44, 32] :: nat list" xs rule: py_join.induct)
     (auto simp: bold_append sublist_Cons_right)

lemma join_last_nonempty:
  "xs \<noteq> [] \<Longrightarrow> last xs \<noteq> [] \<Longrightarrow>
   py_join [44, 32] xs \<noteq> [] \<and> last (py_join [44, 32] xs) = last (last xs)"
  by (induction "[44, 32] :: nat list" xs rule: py_join.induct) auto

lemma join_last_empty:
  "xs \<noteq> [] \<Longrightarrow> last xs = [] \<Longrightarrow>
   py_join [44, 32] xs = [] \<or> last (py_join [44, 32] xs) = 32"
  by (induction "[44, 32] :: nat list" xs rule: py_join.induct) auto


lemma suffix_single: "suffix [c] ys \<longleftrightarrow> ys \<noteq> [] \<and> last ys = c"
  by (cases ys rule: rev_cases) auto

lemma suffix_double_snoc: "suffix [c, c] (ys @ [c]) \<longleftrightarrow> ys \<noteq> [] \<and> last ys = c"
proof -
  have "suffix ([c] @ [c]) (ys @ [c]) \<longleftrightarrow> suffix [c] ys"
    by (simp only: snoc_suffix_snoc) simp
  then show ?thesis by (simp add: suffix_single)
qed

lemma sources_par_last:
  assumes "xs \<noteq> []"
  shows "\<exists>X. sources_par xs = X @ [10] \<and> X \<noteq> [] \<and>
             (last X = 10 \<longleftrightarrow> suffix [10] (last xs))"
proof -
  let ?J = "py_join [44, 32] xs"
  let ?A = "paragraph_break @ asc ''Sources: ''"
  have A: "?A \<noteq> []" "last ?A = 32" by (simp_all add: paragraph_break_def asc_def)
  have sp: "sources_par xs = (?A @ ?J) @ [10]"
    by (simp add: sources_par_def asc_def)
  have "last (?A @ ?J) = 10 \<longleftrightarrow> suffix [10] (last xs)"
  proof (cases "last xs = []")
    case True
    with assms have "?J = [] \<or> last ?J = 32" by (rule join_last_empty)
    then have "last (?A @ ?J) = 32" using A by (auto simp: last_append)
    with True show ?thesis by simp
  next
    case False
    with assms have "?J \<noteq> [] \<and> last ?J = last (last xs)" by (rule join_last_nonempty)
    then have "last (?A @ ?J) = last (last xs)" by (simp add: last_append)
    with False show ?thesis by (simp add: suffix_single)
  qed
  with sp A show ?thesis by blast
qed

section \<open>The end of the formatted answer\<close>

text \<open>
  Claim C5, as amended. For every body text and every list of strings as sources,
  \<^verbatim>\<open>_finalize_output\<close> returns a string that ends with a line feed; it ends with two
  line feeds exactly when the list is not empty and its last entry ends with a line feed.
  So the output ends with exactly one line feed for an empty list and for every list whose
  last entry does not end with a line feed.
\<close>

theorem finalize_output_trailing_newline:
  "\<exists>out. finalize_output (PStr s) (PList (map PStr xs)) = Inr out \<and> suffix [10] out \<and>
         (suffix [10, 10] out \<longleftrightarrow> xs \<noteq> [] \<and> suffix [10] (last xs))"
proof -
  obtain T where T: "T \<noteq> [] \<longrightarrow> \<not> py_isspace (last T)"
    and out: "finalize_output (PStr s) (PList (map PStr xs)) =
                Inr (if xs = [] then T @ [10] else T @ sources_par xs)"
    using finalize_shape by blast
  show ?thesis
  proof (cases "xs = []")
    case True
    have "\<not> (T \<noteq> [] \<and> last T = 10)" using T isspace_facts(2) by metis
    then have "\<not> suffix [10, 10] (T @ [10])" by (simp only: suffix_double_snoc) simp
    with out True show ?thesis by (simp add: suffix_def)
  next
    case False
    then obtain X where X: "sources_par xs = X @ [10]" "X \<noteq> []"
      "last X = 10 \<longleftrightarrow> suffix [10] (last xs)"
      using sources_par_last by blast
    have "suffix [10, 10] ((T @ X) @ [10]) \<longleftrightarrow> suffix [10] (last xs)"
      using X(2,3) by (simp only: suffix_double_snoc) (simp add: last_append)
    moreover have "suffix [10] ((T @ X) @ [10])" by (simp add: suffix_def)
    ultimately show ?thesis using out False X(1) by simp
  qed
qed

text \<open>With the sources \<^verbatim>\<open>["a.pdf", "b.pdf"]\<close> the output ends with one line feed.\<close>

theorem finalize_output_trailing_newline_witness:
  "\<exists>out. finalize_output (PStr (asc ''Bold text'')) (PList (map PStr [asc ''a.pdf'', asc ''b.pdf''])) = Inr out \<and>
         suffix [10] out \<and> \<not> suffix [10, 10] out"
  using finalize_output_trailing_newline [of "asc ''Bold text''" "[asc ''a.pdf'', asc ''b.pdf'']"]
  by (simp add: asc_def suffix_single)

text \<open>
  Claim C5 as stated fails for the sources \<^verbatim>\<open>["notes.pdf\n"]\<close>: the names are appended
  as they are, and the final line feed follows the one of the name.
\<close>

theorem finalize_output_double_newline_counterexample:
  "finalize_output (PStr (asc ''x'')) (PList [PStr (asc ''notes.pdf'' @ [10])]) =
     Inr (asc ''x'' @ paragraph_break @ asc ''Sources: notes.pdf'' @ [10, 10]) \<and>
   suffix [10, 10] (asc ''x'' @ paragraph_break @ asc ''Sources: notes.pdf'' @ [10, 10])"
  by (simp add: finalize_output_def format_one_line_bullets_def remove_bold_markdown_def
      py_or_def py_replace_def py_rstrip_def py_isspace_def join_value_def paragraph_break_def
      asc_def suffix_def)

section \<open>Bold markers in the formatted answer\<close>

text \<open>
  Claim C6, as amended. For every body text and every list of strings as sources none of
  which contains \<^verbatim>\<open>**\<close>, the string returned by \<^verbatim>\<open>_finalize_output\<close> contains no
  \<^verbatim>\<open>**\<close>. (The markers are deleted from the body only; the names are appended as they
  are.)
\<close>

theorem finalize_output_no_bold:
  assumes "\<forall>x\<in>set xs. \<not> py_in (asc ''**'') x"
  shows "\<exists>out. finalize_output (PStr s) (PList (map PStr xs)) = Inr out \<and>
               \<not> py_in (asc ''**'') out"
proof -
  obtain T where T: "\<not> sublist [42, 42] T"
    and out: "finalize_output (PStr s) (PList (map PStr xs)) =
                Inr (if xs = [] then T @ [10] else T @ sources_par xs)"
    using finalize_shape by blast
  have J: "\<not> sublist [42, 42] (py_join [44, 32] xs)"
    using assms by (intro join_no_bold) (simp add: py_in_sublist asc_bold)
  have "\<not> sublist [42, 42] (T @ [10])"
    using T by (simp add: bold_append sublist_Cons_right)
  moreover have "\<not> sublist [42, 42] (T @ sources_par xs)"
    using T J by (simp add: sources_par_def paragraph_break_def asc_def bold_append sublist_Cons_right)
  ultimately show ?thesis using out by (simp add: py_in_sublist asc_bold)
qed

text \<open>A bold body and two plain names.\<close>

theorem finalize_output_no_bold_witness:
  "\<not> py_in (asc ''**'') (asc ''a.pdf'') \<and> \<not> py_in (asc ''**'') (asc ''b.pdf'') \<and>
   (\<exists>out. finalize_output (PStr (asc ''**Bold** text''))
            (PList (map PStr [asc ''a.pdf'', asc ''b.pdf''])) = Inr out \<and>
          \<not> py_in (asc ''**'') out)"
proof -
  have h: "\<forall>x\<in>set [asc ''a.pdf'', asc ''b.pdf'']. \<not> py_in (asc ''**'') x"
    by (simp add: asc_def)
  from finalize_output_no_bold [OF h, of "asc ''**Bold** text''"] h show ?thesis by simp
qed

text \<open>
  Claim C6 as stated fails for the sources \<^verbatim>\<open>["a**b.pdf"]\<close>: the marker inside the name
  is in the output.
\<close>

theorem finalize_output_bold_in_sources_counterexample:
  "finalize_output (PStr (asc ''x'')) (PList [PStr (asc ''a**b.pdf'')]) =
     Inr (asc ''x'' @ paragraph_break @ asc ''Sources: a**b.pdf'' @ [10]) \<and>
   py_in (asc ''**'') (asc ''x'' @ paragraph_break @ asc ''Sources: a**b.pdf'' @ [10])"
  by (simp add: finalize_output_def format_one_line_bullets_def remove_bold_markdown_def
      py_or_def py_replace_def py_rstrip_def py_isspace_def join_value_def paragraph_break_def
      asc_def)

section \<open>The formatter returns\<close>

text \<open>
  Claim C9. \<^verbatim>\<open>_finalize_output\<close> returns a non-empty string for every string body, and
  for the body \<^verbatim>\<open>None\<close>, with every list of strings as sources. The body \<^verbatim>\<open>None\<close> gives
  what the empty string gives, whatever the sources are. For the empty or absent body the
  result is exactly a line feed when the sources are empty, and exactly the sources
  paragraph when they are not.
\<close>

theorem finalize_output_total:
  "(\<exists>out. finalize_output (PStr s) (PList (map PStr xs)) = Inr out \<and> out \<noteq> []) \<and>
   (\<exists>out. finalize_output PNone (PList (map PStr xs)) = Inr out \<and> out \<noteq> []) \<and>
   finalize_output PNone srcs = finalize_output (PStr []) srcs \<and>
   finalize_output (PStr []) (PList []) = Inr [10] \<and>
   finalize_output PNone (PList []) = Inr [10] \<and>
   (xs \<noteq> [] \<longrightarrow>
      finalize_output (PStr []) (PList (map PStr xs)) =
        Inr (paragraph_break @ asc ''Sources: '' @ py_join (asc '', '') xs @ [10]))"
proof -
  have a: "\<exists>out. finalize_output (PStr s) (PList (map PStr xs)) = Inr out \<and> out \<noteq> []" for s
    using finalize_shape[of s xs] by (cases "xs = []") (auto simp: sources_par_def)
  have e: "finalize_output (PStr []) (PList (map PStr xs)) =
        Inr (if xs = [] then [10] else paragraph_break @ asc ''Sources: '' @ py_join (asc '', '') xs @ [10])"
    by (simp add: finalize_output_def format_one_line_bullets_def remove_bold_markdown_def
        py_or_def py_rstrip_def join_value_strs)
  have n: "finalize_output (PStr []) (PList []) = Inr [10]"
    by (simp add: finalize_output_def format_one_line_bullets_def remove_bold_markdown_def
        py_or_def py_rstrip_def)
  show ?thesis using a e n by (simp add: finalize_none)
qed

text \<open>The body \<^verbatim>\<open>None\<close> with the sources \<^verbatim>\<open>["a.pdf"]\<close>.\<close>

theorem finalize_output_total_witness:
  "[asc ''a.pdf''] \<noteq> [] \<and>
   finalize_output PNone (PList (map PStr [asc ''a.pdf''])) =
     Inr (paragraph_break @ asc ''Sources: a.pdf'' @ [10])"
  using finalize_output_total [of "[]" "[asc ''a.pdf'']" "PList (map PStr [asc ''a.pdf''])"]
  by (simp add: asc_def)

section \<open>The references of the two shapes\<close>

lemma extend_refs_groups:
  "extend_refs (map refs_group Ls) refs = Inr (refs @ concat Ls)"
  by (induction Ls arbitrary: refs) (simp_all add: refs_group_def py_or_def)

lemma retrieved_refs_mapping: "retrieved_refs (mapping_shape L) = Inr L"
  by (simp add: retrieved_refs_def mapping_shape_def refs_group_def py_or_def)

lemma retrieved_refs_sequence: "retrieved_refs (sequence_shape Ls) = Inr (concat Ls)"
  by (simp add: retrieved_refs_def sequence_shape_def py_or_def extend_refs_groups)

section \<open>Properties of the de-duplication\<close>

lemma dedup_loop_unhashable:
  "\<exists>t\<in>set ts. \<not> py_hashable t \<Longrightarrow> dedup_loop ts seen unique = Inl TypeError"
  by (induction ts arbitrary: seen unique) auto

lemma dedup_loop_first_seen:
  "\<forall>t\<in>set ts. py_hashable t \<Longrightarrow>
   dedup_loop ts seen unique = Inr (unique @ filter (\<lambda>y. py_key y \<notin> seen) (first_seen ts))"
proof (induction ts arbitrary: seen unique)
  case Nil
  show ?case by simp
next
  case (Cons t ts)
  then have h: "py_hashable t" and hs: "\<forall>t\<in>set ts. py_hashable t" by simp_all
  show ?case
  proof (cases "py_key t \<in> seen")
    case True
    have "filter (\<lambda>y. py_key y \<notin> seen) (filter (\<lambda>y. py_key y \<noteq> py_key t) (first_seen ts))
          = filter (\<lambda>y. py_key y \<notin> seen) (first_seen ts)"
      using True by (auto intro: filter_cong)
    with True h Cons.IH[OF hs] show ?thesis by simp
  next
    case False
    have "filter (\<lambda>y. py_key y \<notin> insert (py_key t) seen) (first_seen ts)
          = filter (\<lambda>y. py_key y \<notin> seen) (filter (\<lambda>y. py_key y \<noteq> py_key t) (first_seen ts))"
      by (auto intro: filter_cong)
    with False h Cons.IH[OF hs] show ?thesis by simp
  qed
qed

lemma dedup_eq:
  "dedup xs = (if \<forall>t\<in>set xs. py_hashable t then Inr (first_seen xs) else Inl TypeError)"
  using dedup_loop_first_seen[of xs "{}" "[]"] dedup_loop_unhashable[of xs "{}" "[]"]
  by (auto simp: dedup_def)

lemma first_seen_keys: "set (map py_key (first_seen xs)) = set (map py_key xs)"
proof (induction xs)
  case Nil
  show ?case by simp
next
  case (Cons x xs)
  have "py_key ` set (filter (\<lambda>y. py_key y \<noteq> py_key x) (first_seen xs))
          = py_key ` set (first_seen xs) - {py_key x}"
    by auto
  with Cons show ?case by auto
qed

lemma first_seen_subset: "set (first_seen xs) \<subseteq> set xs"
  by (induction xs) auto

lemma first_seen_distinct: "distinct (map py_key (first_seen xs))"
  by (induction xs) (auto simp: distinct_map_filter)

lemma first_index_Cons:
  "first_index (k # ks) k' = (if k' = k then 0 else Suc (first_index ks k'))"
  by (simp add: first_index_def)

lemma first_seen_sorted:
  "sorted_wrt (\<lambda>a b. first_index (map py_key xs) (py_key a) < first_index (map py_key xs) (py_key b))
     (first_seen xs)"
proof (induction xs)
  case Nil
  show ?case by simp
next
  case (Cons x xs)
  let ?P = "\<lambda>ks a b. first_index ks (py_key a) < first_index ks (py_key b)"
  let ?F = "filter (\<lambda>y. py_key y \<noteq> py_key x) (first_seen xs)"
  have "sorted_wrt (?P (map py_key xs)) ?F"
    using Cons.IH by (rule sorted_wrt_filter)
  then have "sorted_wrt (?P (map py_key (x # xs))) ?F"
    by (rule sorted_wrt_mono_rel[rotated]) (simp add: first_index_Cons)
  moreover have "\<forall>y\<in>set ?F. ?P (map py_key (x # xs)) x y"
    by (simp add: first_index_Cons)
  ultimately show ?case by simp
qed

lemma first_seen_first:
  "a \<in> set (first_seen xs) \<Longrightarrow> xs ! first_index (map py_key xs) (py_key a) = a"
  by (induction xs) (auto simp: first_index_Cons)

lemma first_seen_stable: "stable_dedup xs (first_seen xs)"
  unfolding stable_dedup_def
  using first_seen_keys first_seen_distinct first_seen_sorted first_seen_first by blast

lemma stable_dedup_distinct: "stable_dedup xs r \<Longrightarrow> distinct r"
  by (simp add: stable_dedup_def distinct_map)


lemma is_pdf_name_True:
  "is_pdf_name tbl name = Inr True \<Longrightarrow>
   \<exists>s. name = PStr s \<and> suffix (asc ''.pdf'') (py_lower tbl s)"
  by (cases name) (auto simp: is_pdf_name_def split: if_splits)

lemma filenames_loop_entries:
  "\<forall>n\<in>set filenames. \<exists>s. n = PStr s \<and> suffix (asc ''.pdf'') (py_lower tbl s) \<Longrightarrow>
   \<forall>n\<in>set (fst (filenames_loop tbl refs filenames)).
      \<exists>s. n = PStr s \<and> suffix (asc ''.pdf'') (py_lower tbl s)"
proof (induction refs arbitrary: filenames)
  case Nil
  then show ?case by simp
next
  case (Cons ref refs)
  show ?case
  proof (cases "pdf_name_of_ref ref")
    case (Inl e)
    with Cons.prems show ?thesis by simp
  next
    case (Inr name)
    show ?thesis
    proof (cases "is_pdf_name tbl name")
      case (Inl e)
      with Inr Cons.prems show ?thesis by simp
    next
      case keep: (Inr keep)
      have "\<forall>n\<in>set (if keep then filenames @ [name] else filenames).
              \<exists>s. n = PStr s \<and> suffix (asc ''.pdf'') (py_lower tbl s)"
        using Cons.prems keep is_pdf_name_True[of tbl name] by auto
      from Cons.IH[OF this] Inr keep show ?thesis by simp
    qed
  qed
qed

lemma collect_filenames_entries:
  "\<forall>n\<in>set (fst (collect_filenames tbl rag)).
     \<exists>s. n = PStr s \<and> suffix (asc ''.pdf'') (py_lower tbl s)"
proof (cases "retrieved_refs rag")
  case (Inl e)
  then show ?thesis by (simp add: collect_filenames_def)
next
  case (Inr refs)
  then show ?thesis
    using filenames_loop_entries[of "[]" tbl refs] by (simp add: collect_filenames_def)
qed

lemma extract_pdf_filenames_eq:
  "extract_pdf_filenames_from_citations tbl rag =
     Inr (first_seen (fst (collect_filenames tbl rag)))"
proof -
  have "\<forall>t\<in>set (fst (collect_filenames tbl rag)). py_hashable t"
    using collect_filenames_entries[of tbl rag] by auto
  then show ?thesis
    by (simp add: extract_pdf_filenames_from_citations_def dedup_eq)
qed

text \<open>
  So the PDF extractor returns a list for every input, and the title extractor raises
  exactly when a list or a dictionary was collected as a title.
\<close>

lemma extract_pdf_filenames_returns:
  "\<exists>r. extract_pdf_filenames_from_citations tbl rag = Inr r"
  by (simp add: extract_pdf_filenames_eq)

lemma extract_titles_eq:
  "extract_document_titles_from_citations rag =
     (if \<forall>t\<in>set (fst (collect_titles rag)). py_hashable t
      then Inr (first_seen (fst (collect_titles rag))) else Inl TypeError)"
  by (simp add: extract_document_titles_from_citations_def dedup_eq)

lemma lower_cp_nonempty:
  assumes "\<forall>c\<ge>128. g c \<noteq> [] \<and> set (g c) \<inter> {46, 112, 100, 102} = {}"
  shows "lower_cp g c \<noteq> []"
  using assms by (simp add: lower_cp_def)

lemma lower_cp_last:
  assumes "\<forall>c\<ge>128. g c \<noteq> [] \<and> set (g c) \<inter> {46, 112, 100, 102} = {}"
    and "t \<in> {46, 112, 100, 102}"
    and "last (lower_cp g c) = t"
  shows "lower_cp g c = [t] \<and> (c = t \<or> c + 32 = t \<and> 65 \<le> c \<and> c \<le> 90)"
proof (cases "c < 128")
  case True
  with assms(2,3) show ?thesis by (auto simp: lower_cp_def split: if_splits)
next
  case False
  then have "g c \<noteq> []" and "set (g c) \<inter> {46, 112, 100, 102} = {}"
    using assms(1) by simp_all
  moreover from False assms(3) have "last (g c) = t" by (simp add: lower_cp_def)
  ultimately have False using assms(2) last_in_set[of "g c"] by blast
  then show ?thesis ..
qed

lemma lower_from_snoc:
  "lower_from f i (s @ [c]) = lower_from f i s @ lower_cp (f (i + length s)) c"
  by (induction s arbitrary: i) simp_all

text \<open>
  A lower-cased string ends with one of the four characters only where the string itself
  ends with that character in either case.
\<close>

lemma suffix_snoc_lower:
  assumes f: "\<forall>i. \<forall>c\<ge>128. f i c \<noteq> [] \<and> set (f i c) \<inter> {46, 112, 100, 102} = {}"
    and t: "t \<in> {46, 112, 100, 102}"
    and suf: "suffix (p @ [t]) (lower_from f i s)"
  shows "\<exists>s' c. s = s' @ [c] \<and> (c = t \<or> c + 32 = t \<and> 65 \<le> c \<and> c \<le> 90) \<and>
                suffix p (lower_from f i s')"
proof (cases s rule: rev_cases)
  case Nil
  with suf show ?thesis by simp
next
  case (snoc s' c)
  let ?g = "f (i + length s')"
  let ?L = "lower_cp ?g c"
  have g: "\<forall>c\<ge>128. ?g c \<noteq> [] \<and> set (?g c) \<inter> {46, 112, 100, 102} = {}"
    using f by blast
  have L: "?L = butlast ?L @ [last ?L]"
    using lower_cp_nonempty[OF g, of c] by simp
  have "lower_from f i s = (lower_from f i s' @ butlast ?L) @ [last ?L]"
    using snoc L by (simp add: lower_from_snoc)
  with suf have e: "t = last ?L" and sp: "suffix p (lower_from f i s' @ butlast ?L)"
    by (simp_all only: snoc_suffix_snoc)
  from lower_cp_last[OF g t e[symmetric]]
  have "?L = [t]" and c: "c = t \<or> c + 32 = t \<and> 65 \<le> c \<and> c \<le> 90" by simp_all
  with sp have "suffix p (lower_from f i s')" by simp
  with snoc c show ?thesis by blast
qed

lemma pdf_suffix_chars_from:
  assumes f: "\<forall>i. \<forall>c\<ge>128. f i c \<noteq> [] \<and> set (f i c) \<inter> {46, 112, 100, 102} = {}"
    and suf: "suffix [46, 112, 100, 102] (lower_from f i s)"
  shows "\<exists>p a b c. s = p @ [46, a, b, c] \<and> a \<in> {112, 80} \<and> b \<in> {100, 68} \<and> c \<in> {102, 70}"
proof -
  have "suffix ([46, 112, 100] @ [102]) (lower_from f i s)" using suf by simp
  from suffix_snoc_lower[OF f _ this] obtain s3 c
    where 3: "s = s3 @ [c]" "c \<in> {102, 70}" "suffix ([46, 112] @ [100]) (lower_from f i s3)"
    by auto
  from suffix_snoc_lower[OF f _ 3(3)] obtain s2 b
    where 2: "s3 = s2 @ [b]" "b \<in> {100, 68}" "suffix ([46] @ [112]) (lower_from f i s2)"
    by auto
  from suffix_snoc_lower[OF f _ 2(3)] obtain s1 a
    where 1: "s2 = s1 @ [a]" "a \<in> {112, 80}" "suffix ([] @ [46]) (lower_from f i s1)"
    by auto
  from suffix_snoc_lower[OF f _ 1(3)] obtain s0 d
    where 0: "s1 = s0 @ [d]" "d = 46"
    by auto
  from 0 1 2 3 have "s = s0 @ [46, a, b, c]" by simp
  with 1(2) 2(2) 3(2) show ?thesis by blast
qed

lemma pdf_suffix_chars:
  assumes tbl: "\<forall>s i. \<forall>c\<ge>128. tbl s i c \<noteq> [] \<and> set (tbl s i c) \<inter> {46, 112, 100, 102} = {}"
    and suf: "suffix (asc ''.pdf'') (py_lower tbl s)"
  shows "\<exists>p a b c. s = p @ [46, a, b, c] \<and> a \<in> {112, 80} \<and> b \<in> {100, 68} \<and> c \<in> {102, 70}"
proof -
  have f: "\<forall>i. \<forall>c\<ge>128. tbl s i c \<noteq> [] \<and> set (tbl s i c) \<inter> {46, 112, 100, 102} = {}"
    using tbl by blast
  have "suffix [46, 112, 100, 102] (lower_from (tbl s) 0 s)"
    using suf by (simp add: asc_def py_lower_def)
  with f show ?thesis by (rule pdf_suffix_chars_from)
qed

section \<open>The entries of the PDF extractor\<close>

text \<open>
  Claim C2. For every input, \<^verbatim>\<open>_extract_pdf_filenames_from_citations\<close> returns a list, and
  every entry of it is a string whose lower-cased form ends with \<^verbatim>\<open>.pdf\<close>, for any case
  table of the code points beyond ASCII. When that table gives every such code point a
  non-empty string without any of the four characters of \<^verbatim>\<open>.pdf\<close> (as the Unicode table
  does), the last four code points of every entry are a full stop, \<^verbatim>\<open>p\<close> or \<^verbatim>\<open>P\<close>,
  \<^verbatim>\<open>d\<close> or \<^verbatim>\<open>D\<close>, and \<^verbatim>\<open>f\<close> or \<^verbatim>\<open>F\<close>.
\<close>

theorem pdf_filenames_end_with_pdf:
  "\<exists>r. extract_pdf_filenames_from_citations tbl rag = Inr r \<and>
       (\<forall>n\<in>set r. \<exists>s. n = PStr s \<and> suffix (asc ''.pdf'') (py_lower tbl s)) \<and>
       ((\<forall>s i. \<forall>c\<ge>128. tbl s i c \<noteq> [] \<and> set (tbl s i c) \<inter> {46, 112, 100, 102} = {}) \<longrightarrow>
        (\<forall>n\<in>set r. \<exists>p a b c. n = PStr (p @ [46, a, b, c]) \<and>
                      a \<in> {112, 80} \<and> b \<in> {100, 68} \<and> c \<in> {102, 70}))"
proof -
  let ?r = "first_seen (fst (collect_filenames tbl rag))"
  have r: "\<forall>n\<in>set ?r. \<exists>s. n = PStr s \<and> suffix (asc ''.pdf'') (py_lower tbl s)"
    using collect_filenames_entries[of tbl rag] first_seen_subset by blast
  then have "(\<forall>s i. \<forall>c\<ge>128. tbl s i c \<noteq> [] \<and> set (tbl s i c) \<inter> {46, 112, 100, 102} = {}) \<longrightarrow>
        (\<forall>n\<in>set ?r. \<exists>p a b c. n = PStr (p @ [46, a, b, c]) \<and>
                      a \<in> {112, 80} \<and> b \<in> {100, 68} \<and> c \<in> {102, 70})"
    using pdf_suffix_chars[of tbl] by metis
  with r show ?thesis by (simp add: extract_pdf_filenames_eq)
qed

text \<open>
  Three references in the sequence shape: a storage URI with a query string, a web URL of
  a text file, and a metadata file name in upper case.
\<close>

theorem pdf_filenames_end_with_pdf_witness:
  "extract_pdf_filenames_from_citations (\<lambda>s i c. [c])
     (sequence_shape
        [[PDict [(PStr (asc ''location''),
            PDict [(PStr (asc ''s3Location''),
              PDict [(PStr (asc ''uri''), PStr (asc ''s3://bucket/path/Report.PDF?x=1''))])])],
          PDict [(PStr (asc ''location''),
            PDict [(PStr (asc ''webLocation''),
              PDict [(PStr (asc ''url''), PStr (asc ''https://host/notes.txt''))])])]],
         [PDict [(PStr (asc ''metadata''),
            PDict [(PStr (asc ''file_name''), PStr (asc ''GUIDE.Pdf''))])]]])
     = Inr [PStr (asc ''Report.PDF''), PStr (asc ''GUIDE.Pdf'')] \<and>
   suffix (asc ''.pdf'') (py_lower (\<lambda>s i c. [c]) (asc ''Report.PDF'')) \<and>
   suffix (asc ''.pdf'') (py_lower (\<lambda>s i c. [c]) (asc ''GUIDE.Pdf''))"
  using pdf_filenames_end_with_pdf [of "\<lambda>s i c. [c]"
     "sequence_shape
        [[PDict [(PStr (asc ''location''),
            PDict [(PStr (asc ''s3Location''),
              PDict [(PStr (asc ''uri''), PStr (asc ''s3://bucket/path/Report.PDF?x=1''))])])],
          PDict [(PStr (asc ''location''),
            PDict [(PStr (asc ''webLocation''),
              PDict [(PStr (asc ''url''), PStr (asc ''https://host/notes.txt''))])])]],
         [PDict [(PStr (asc ''metadata''),
            PDict [(PStr (asc ''file_name''), PStr (asc ''GUIDE.Pdf''))])]]]"]
  by (simp add: extract_pdf_filenames_from_citations_def collect_filenames_def
      retrieved_refs_sequence pdf_name_of_ref_def location_uri_def get_or_empty_def
      metadata_name_def py_or_def name_from_uri_def basename_before_query_def
      os_path_basename_def py_split_def is_pdf_name_def py_lower_def lower_cp_def dedup_def
      asc_def suffix_def)


section \<open>Stable de-duplication\<close>

text \<open>
  Claim C3. Whenever \<^verbatim>\<open>_extract_document_titles_from_citations\<close> returns a list, and
  for every input of \<^verbatim>\<open>_extract_pdf_filenames_from_citations\<close>, which always returns one,
  the list returned has no duplicate entries, holds exactly the values collected from the
  references, and lists them in the order of their first occurrences.
\<close>

theorem extractors_stable_dedup:
  "(extract_document_titles_from_citations rag = Inr r \<longrightarrow>
      stable_dedup (fst (collect_titles rag)) r \<and> distinct r) \<and>
   (\<exists>r'. extract_pdf_filenames_from_citations tbl rag = Inr r' \<and>
         stable_dedup (fst (collect_filenames tbl rag)) r' \<and> distinct r')"
proof -
  have "stable_dedup (fst (collect_titles rag)) r \<and> distinct r"
    if "extract_document_titles_from_citations rag = Inr r"
  proof -
    from that have "r = first_seen (fst (collect_titles rag))"
      by (simp add: extract_document_titles_from_citations_def dedup_eq split: if_splits)
    then show ?thesis using first_seen_stable stable_dedup_distinct by blast
  qed
  moreover have "stable_dedup (fst (collect_filenames tbl rag))
                   (first_seen (fst (collect_filenames tbl rag)))"
    by (rule first_seen_stable)
  ultimately show ?thesis
    using stable_dedup_distinct by (auto simp: extract_pdf_filenames_eq)
qed

text \<open>
  Four references in the mapping shape: a titled one, one with a storage URI, and both
  once more.
\<close>

theorem extractors_stable_dedup_witness:
  "fst (collect_titles
     (mapping_shape
        [PDict [(PStr (asc ''metadata''),
           PDict [(PStr (asc ''x-amz-bedrock-kb-document-title''), PStr (asc ''Guide''))])],
         PDict [(PStr (asc ''location''),
           PDict [(PStr (asc ''s3Location''),
             PDict [(PStr (asc ''uri''), PStr (asc ''s3://b/Report.pdf''))])])],
         PDict [(PStr (asc ''metadata''),
           PDict [(PStr (asc ''x-amz-bedrock-kb-document-title''), PStr (asc ''Guide''))])],
         PDict [(PStr (asc ''location''),
           PDict [(PStr (asc ''s3Location''),
             PDict [(PStr (asc ''uri''), PStr (asc ''s3://b/Report.pdf''))])])]]))
     = [PStr (asc ''Guide''), PStr (asc ''Report.pdf''),
        PStr (asc ''Guide''), PStr (asc ''Report.pdf'')] \<and>
   extract_document_titles_from_citations
     (mapping_shape
        [PDict [(PStr (asc ''metadata''),
           PDict [(PStr (asc ''x-amz-bedrock-kb-document-title''), PStr (asc ''Guide''))])],
         PDict [(PStr (asc ''location''),
           PDict [(PStr (asc ''s3Location''),
             PDict [(PStr (asc ''uri''), PStr (asc ''s3://b/Report.pdf''))])])],
         PDict [(PStr (asc ''metadata''),
           PDict [(PStr (asc ''x-amz-bedrock-kb-document-title''), PStr (asc ''Guide''))])],
         PDict [(PStr (asc ''location''),
           PDict [(PStr (asc ''s3Location''),
             PDict [(PStr (asc ''uri''), PStr (asc ''s3://b/Report.pdf''))])])]])
     = Inr [PStr (asc ''Guide''), PStr (asc ''Report.pdf'')] \<and>
   distinct [PStr (asc ''Guide''), PStr (asc ''Report.pdf'')] \<and>
   fst (collect_filenames (\<lambda>s i c. [c])
     (mapping_shape
        [PDict [(PStr (asc ''metadata''),
           PDict [(PStr (asc ''x-amz-bedrock-kb-document-title''), PStr (asc ''Guide''))])],
         PDict [(PStr (asc ''location''),
           PDict [(PStr (asc ''s3Location''),
             PDict [(PStr (asc ''uri''), PStr (asc ''s3://b/Report.pdf''))])])],
         PDict [(PStr (asc ''metadata''),
           PDict [(PStr (asc ''x-amz-bedrock-kb-document-title''), PStr (asc ''Guide''))])],
         PDict [(PStr (asc ''location''),
           PDict [(PStr (asc ''s3Location''),
             PDict [(PStr (asc ''uri''), PStr (asc ''s3://b/Report.pdf''))])])]]))
     = [PStr (asc ''Report.pdf''), PStr (asc ''Report.pdf'')] \<and>
   extract_pdf_filenames_from_citations (\<lambda>s i c. [c])
     (mapping_shape
        [PDict [(PStr (asc ''metadata''),
           PDict [(PStr (asc ''x-amz-bedrock-kb-document-title''), PStr (asc ''Guide''))])],
         PDict [(PStr (asc ''location''),
           PDict [(PStr (asc ''s3Location''),
             PDict [(PStr (asc ''uri''), PStr (asc ''s3://b/Report.pdf''))])])],
         PDict [(PStr (asc ''metadata''),
           PDict [(PStr (asc ''x-amz-bedrock-kb-document-title''), PStr (asc ''Guide''))])],
         PDict [(PStr (asc ''location''),
           PDict [(PStr (asc ''s3Location''),
             PDict [(PStr (asc ''uri''), PStr (asc ''s3://b/Report.pdf''))])])]])
     = Inr [PStr (asc ''Report.pdf'')]"
  using extractors_stable_dedup [of
     "mapping_shape
        [PDict [(PStr (asc ''metadata''),
           PDict [(PStr (asc ''x-amz-bedrock-kb-document-title''), PStr (asc ''Guide''))])],
         PDict [(PStr (asc ''location''),
           PDict [(PStr (asc ''s3Location''),
             PDict [(PStr (asc ''uri''), PStr (asc ''s3://b/Report.pdf''))])])],
         PDict [(PStr (asc ''metadata''),
           PDict [(PStr (asc ''x-amz-bedrock-kb-document-title''), PStr (asc ''Guide''))])],
         PDict [(PStr (asc ''location''),
           PDict [(PStr (asc ''s3Location''),
             PDict [(PStr (asc ''uri''), PStr (asc ''s3://b/Report.pdf''))])])]]"
     "[PStr (asc ''Guide''), PStr (asc ''Report.pdf'')]" "\<lambda>s i c. [c]"]
  by (simp add: extract_document_titles_from_citations_def collect_titles_def
      extract_pdf_filenames_from_citations_def collect_filenames_def
      retrieved_refs_mapping title_of_ref_def pdf_name_of_ref_def metadata_name_def
      location_uri_def get_or_empty_def py_or_def is_pdf_name_def py_lower_def lower_cp_def
      name_from_uri_def basename_before_query_def os_path_basename_def py_split_def
      dedup_def asc_def suffix_def)

section \<open>Names from locations\<close>

lemma split_ne_nonempty: "split_ne sep cur s \<noteq> []"
  by (induction sep cur s rule: split_ne.induct) auto

lemma split_ne_last:
  "last (split_ne [47] cur s) =
     (if 47 \<in> set s then rev (takeWhile (\<lambda>c. c \<noteq> 47) (rev s)) else cur @ s)"
proof (induction s arbitrary: cur)
  case Nil
  show ?case by simp
next
  case (Cons c cs)
  show ?case
  proof (cases "c = 47")
    case True
    then have "last (split_ne [47] cur (c # cs)) = last (split_ne [47] [] cs)"
      by (simp add: split_ne_nonempty)
    with True Cons.IH[of "[]"] show ?thesis by (auto simp: takeWhile_append)
  next
    case False
    then have "last (split_ne [47] cur (c # cs)) = last (split_ne [47] (cur @ [c]) cs)"
      by simp
    with False Cons.IH[of "cur @ [c]"] show ?thesis by (auto simp: takeWhile_append)
  qed
qed

lemma split_ne_hd:
  "hd (split_ne [63] cur s) = cur @ takeWhile (\<lambda>c. c \<noteq> 63) s"
  by (induction s arbitrary: cur) simp_all

text \<open>The last piece between the slashes is the text after the last slash.\<close>

lemma last_piece_after_slash:
  "last (split_ne [47] [] s) = rev (takeWhile (\<lambda>c. c \<noteq> 47) (rev s))"
proof (cases "47 \<in> set s")
  case True
  then show ?thesis by (simp add: split_ne_last)
next
  case False
  then have tw: "takeWhile (\<lambda>c. c \<noteq> 47) (rev s) = rev s"
    by (intro takeWhile_eq_all_conv[THEN iffD2]) auto
  have "rev (takeWhile (\<lambda>c. c \<noteq> 47) (rev s)) = s"
    by (simp only: tw rev_rev_ident)
  moreover from False have "last (split_ne [47] [] s) = s"
    by (simp add: split_ne_last)
  ultimately show ?thesis by (simp only:)
qed

text \<open>What the code computes from a string: the base name first, then the cut.\<close>

lemma name_from_uri_code:
  "name_from_uri (PStr u) =
     PStr (takeWhile (\<lambda>c. c \<noteq> 63) (rev (takeWhile (\<lambda>c. c \<noteq> 47) (rev u))))"
proof -
  let ?b = "rev (takeWhile (\<lambda>c. c \<noteq> 47) (rev u))"
  obtain x xs where p: "split_ne [63] [] ?b = x # xs"
    using split_ne_nonempty[of "[63]" "[]" ?b] by (cases "split_ne [63] [] ?b") auto
  then have "x = takeWhile (\<lambda>c. c \<noteq> 63) ?b"
    using split_ne_hd[of "[]" ?b] by simp
  with p show ?thesis
    by (simp add: name_from_uri_def basename_before_query_def os_path_basename_def
        py_split_def asc_def)
qed

text \<open>
  Where no slash stands in the query string, the base name of the whole string, cut at
  its question mark, is the final path segment.
\<close>

lemma basename_cut_is_segment:
  assumes "47 \<notin> set (query_part u)"
  shows "takeWhile (\<lambda>c. c \<noteq> 63) (rev (takeWhile (\<lambda>c. c \<noteq> 47) (rev u)))
           = final_path_segment u"
proof -
  define a where "a = takeWhile (\<lambda>c. c \<noteq> 63) u"
  define b where "b = dropWhile (\<lambda>c. c \<noteq> 63) u"
  define n where "n = rev (takeWhile (\<lambda>c. c \<noteq> 47) (rev a))"
  have u: "u = a @ b" by (simp add: a_def b_def)
  have b47: "\<forall>c\<in>set (rev b). c \<noteq> 47"
    using assms by (auto simp: query_part_def b_def)
  have a63: "\<forall>c\<in>set a. c \<noteq> 63"
    unfolding a_def by (auto dest: set_takeWhileD)
  have "set n \<subseteq> set a"
    unfolding n_def by (auto dest: set_takeWhileD)
  with a63 have n63: "\<forall>c\<in>set n. c \<noteq> 63" by blast
  have bhd: "b = [] \<or> hd b = 63"
    unfolding b_def using hd_dropWhile[of "\<lambda>c. c \<noteq> 63" u] by blast
  have "takeWhile (\<lambda>c. c \<noteq> 47) (rev (a @ b)) = rev b @ takeWhile (\<lambda>c. c \<noteq> 47) (rev a)"
    unfolding rev_append by (rule takeWhile_append2) (use b47 in auto)
  then have base: "rev (takeWhile (\<lambda>c. c \<noteq> 47) (rev u)) = n @ b"
    by (simp add: u n_def)
  have "takeWhile (\<lambda>c. c \<noteq> 63) (n @ b) = n"
  proof (cases b)
    case Nil
    with n63 show ?thesis by simp
  next
    case (Cons c cs)
    with bhd have "c = 63" by simp
    with Cons n63 show ?thesis by (simp add: takeWhile_append2)
  qed
  moreover have "final_path_segment u = n"
    by (simp add: final_path_segment_def strip_query_def asc_def last_piece_after_slash
        a_def n_def)
  ultimately show ?thesis using base by simp
qed

lemma name_from_uri_str:
  "47 \<notin> set (query_part u) \<Longrightarrow> name_from_uri (PStr u) = PStr (final_path_segment u)"
  by (simp add: name_from_uri_code basename_cut_is_segment)

lemma segment_empty_uri: "final_path_segment [] = []"
  by (simp add: final_path_segment_def strip_query_def)

lemma pdf_name_of_ref_segment:
  assumes "location_uri ref = Inr (PStr u)" and "47 \<notin> set (query_part u)"
  shows "pdf_name_of_ref ref =
           (if final_path_segment u \<noteq> [] then Inr (PStr (final_path_segment u))
            else metadata_name ref)"
proof (cases "u = []")
  case True
  with assms(1) show ?thesis by (simp add: pdf_name_of_ref_def segment_empty_uri)
next
  case False
  with assms show ?thesis by (simp add: pdf_name_of_ref_def name_from_uri_str)
qed

lemma dedup_single_str: "dedup [PStr s] = Inr [PStr s]"
  by (simp add: dedup_def)

lemma extract_single_ref:
  "extract_pdf_filenames_from_citations tbl (sequence_shape [[ref]]) =
     Inr (case pdf_name_of_ref ref of
            Inl e \<Rightarrow> []
          | Inr name \<Rightarrow>
              (case is_pdf_name tbl name of
                 Inl e \<Rightarrow> []
               | Inr keep \<Rightarrow> if keep then [name] else []))"
proof (cases "pdf_name_of_ref ref")
  case (Inl e)
  then show ?thesis
    by (simp add: extract_pdf_filenames_from_citations_def collect_filenames_def
        retrieved_refs_sequence dedup_def)
next
  case (Inr name)
  show ?thesis
  proof (cases "is_pdf_name tbl name")
    case (Inl e)
    with Inr show ?thesis
      by (simp add: extract_pdf_filenames_from_citations_def collect_filenames_def
          retrieved_refs_sequence dedup_def)
  next
    case keep: (Inr keep)
    show ?thesis
    proof (cases keep)
      case True
      with keep have "is_pdf_name tbl name = Inr True" by simp
      then obtain s where "name = PStr s" using is_pdf_name_True by blast
      with Inr keep True show ?thesis
        by (simp add: extract_pdf_filenames_from_citations_def collect_filenames_def
            retrieved_refs_sequence dedup_single_str)
    next
      case False
      with Inr keep show ?thesis
        by (simp add: extract_pdf_filenames_from_citations_def collect_filenames_def
            retrieved_refs_sequence dedup_def)
    qed
  qed
qed

text \<open>
  Claim C7, as amended. Take a reference whose location supplies the string \<open>u\<close> as its
  storage URI or, failing that, web URL, with no slash in the query string of \<open>u\<close>. When
  the final path segment of \<open>u\<close>, the query string removed, is not empty, it is the name
  \<^verbatim>\<open>_extract_pdf_filenames_from_citations\<close> uses for the reference: the loop filters
  and appends this name, whatever the metadata says, and for a response with this one
  reference the result is this name or nothing. When the segment is empty, the name comes
  from the metadata file-name and title keys. In particular the response of scenario B
  gives exactly \<^verbatim>\<open>["Report.PDF"]\<close>.
\<close>

theorem pdf_name_from_location:
  assumes "location_uri ref = Inr (PStr u)" and "47 \<notin> set (query_part u)"
  shows "(final_path_segment u \<noteq> [] \<longrightarrow>
            pdf_name_of_ref ref = Inr (PStr (final_path_segment u)) \<and>
            filenames_loop tbl (ref # refs) filenames =
              filenames_loop tbl refs
                (if suffix (asc ''.pdf'') (py_lower tbl (final_path_segment u))
                 then filenames @ [PStr (final_path_segment u)] else filenames) \<and>
            extract_pdf_filenames_from_citations tbl (sequence_shape [[ref]]) =
              Inr (if suffix (asc ''.pdf'') (py_lower tbl (final_path_segment u))
                   then [PStr (final_path_segment u)] else [])) \<and>
         (final_path_segment u = [] \<longrightarrow>
            pdf_name_of_ref ref = metadata_name ref \<and>
            extract_pdf_filenames_from_citations tbl (sequence_shape [[ref]]) =
              Inr (case metadata_name ref of
                     Inl e \<Rightarrow> []
                   | Inr name \<Rightarrow>
                       (case is_pdf_name tbl name of
                          Inl e \<Rightarrow> []
                        | Inr keep \<Rightarrow> if keep then [name] else []))) \<and>
         extract_pdf_filenames_from_citations tbl
           (PDict [(PStr (asc ''citations''),
              PList [PDict [(PStr (asc ''retrievedReferences''),
                PList [PDict [(PStr (asc ''location''),
                  PDict [(PStr (asc ''s3Location''),
                    PDict [(PStr (asc ''uri''),
                      PStr (asc ''s3://bucket/path/Report.PDF?x=1''))])])]])]])])
           = Inr [PStr (asc ''Report.PDF'')]"
proof -
  note n = pdf_name_of_ref_segment[OF assms]
  have a: "final_path_segment u \<noteq> [] \<Longrightarrow>
            pdf_name_of_ref ref = Inr (PStr (final_path_segment u)) \<and>
            filenames_loop tbl (ref # refs) filenames =
              filenames_loop tbl refs
                (if suffix (asc ''.pdf'') (py_lower tbl (final_path_segment u))
                 then filenames @ [PStr (final_path_segment u)] else filenames) \<and>
            extract_pdf_filenames_from_citations tbl (sequence_shape [[ref]]) =
              Inr (if suffix (asc ''.pdf'') (py_lower tbl (final_path_segment u))
                   then [PStr (final_path_segment u)] else [])"
    using n by (simp add: extract_single_ref is_pdf_name_def)
  have b: "final_path_segment u = [] \<Longrightarrow>
            pdf_name_of_ref ref = metadata_name ref \<and>
            extract_pdf_filenames_from_citations tbl (sequence_shape [[ref]]) =
              Inr (case metadata_name ref of
                     Inl e \<Rightarrow> []
                   | Inr name \<Rightarrow>
                       (case is_pdf_name tbl name of
                          Inl e \<Rightarrow> []
                        | Inr keep \<Rightarrow> if keep then [name] else []))"
    using n by (simp add: extract_single_ref)
  have c: "extract_pdf_filenames_from_citations tbl
           (PDict [(PStr (asc ''citations''),
              PList [PDict [(PStr (asc ''retrievedReferences''),
                PList [PDict [(PStr (asc ''location''),
                  PDict [(PStr (asc ''s3Location''),
                    PDict [(PStr (asc ''uri''),
                      PStr (asc ''s3://bucket/path/Report.PDF?x=1''))])])]])]])])
           = Inr [PStr (asc ''Report.PDF'')]"
    by (simp add: extract_pdf_filenames_from_citations_def collect_filenames_def
        retrieved_refs_def py_or_def pdf_name_of_ref_def location_uri_def get_or_empty_def
        name_from_uri_def basename_before_query_def os_path_basename_def py_split_def
        is_pdf_name_def py_lower_def lower_cp_def dedup_def asc_def suffix_def)
  show ?thesis using a b c by blast
qed

text \<open>
  A web URL with a query string, beside a metadata file name that is not used; and a
  storage URI that ends with a slash, where the metadata file name is used.
\<close>

theorem pdf_name_from_location_witness:
  "location_uri
     (PDict [(PStr (asc ''location''),
        PDict [(PStr (asc ''webLocation''),
          PDict [(PStr (asc ''url''), PStr (asc ''https://host/docs/Guide.pdf?v=2''))])]),
       (PStr (asc ''metadata''), PDict [(PStr (asc ''file_name''), PStr (asc ''other.pdf''))])])
     = Inr (PStr (asc ''https://host/docs/Guide.pdf?v=2'')) \<and>
   47 \<notin> set (query_part (asc ''https://host/docs/Guide.pdf?v=2'')) \<and>
   final_path_segment (asc ''https://host/docs/Guide.pdf?v=2'') = asc ''Guide.pdf'' \<and>
   pdf_name_of_ref
     (PDict [(PStr (asc ''location''),
        PDict [(PStr (asc ''webLocation''),
          PDict [(PStr (asc ''url''), PStr (asc ''https://host/docs/Guide.pdf?v=2''))])]),
       (PStr (asc ''metadata''), PDict [(PStr (asc ''file_name''), PStr (asc ''other.pdf''))])])
     = Inr (PStr (asc ''Guide.pdf'')) \<and>
   extract_pdf_filenames_from_citations (\<lambda>s i c. [c])
     (sequence_shape [[
     PDict [(PStr (asc ''location''),
        PDict [(PStr (asc ''webLocation''),
          PDict [(PStr (asc ''url''), PStr (asc ''https://host/docs/Guide.pdf?v=2''))])]),
       (PStr (asc ''metadata''), PDict [(PStr (asc ''file_name''), PStr (asc ''other.pdf''))])]]])
     = Inr [PStr (asc ''Guide.pdf'')] \<and>
   location_uri
     (PDict [(PStr (asc ''location''),
        PDict [(PStr (asc ''s3Location''),
          PDict [(PStr (asc ''uri''), PStr (asc ''s3://bucket/dir/''))])]),
       (PStr (asc ''metadata''), PDict [(PStr (asc ''file_name''), PStr (asc ''x.pdf''))])])
     = Inr (PStr (asc ''s3://bucket/dir/'')) \<and>
   47 \<notin> set (query_part (asc ''s3://bucket/dir/'')) \<and>
   final_path_segment (asc ''s3://bucket/dir/'') = [] \<and>
   pdf_name_of_ref
     (PDict [(PStr (asc ''location''),
        PDict [(PStr (asc ''s3Location''),
          PDict [(PStr (asc ''uri''), PStr (asc ''s3://bucket/dir/''))])]),
       (PStr (asc ''metadata''), PDict [(PStr (asc ''file_name''), PStr (asc ''x.pdf''))])])
     = Inr (PStr (asc ''x.pdf'')) \<and>
   extract_pdf_filenames_from_citations (\<lambda>s i c. [c])
     (sequence_shape [[
     PDict [(PStr (asc ''location''),
        PDict [(PStr (asc ''s3Location''),
          PDict [(PStr (asc ''uri''), PStr (asc ''s3://bucket/dir/''))])]),
       (PStr (asc ''metadata''), PDict [(PStr (asc ''file_name''), PStr (asc ''x.pdf''))])]]])
     = Inr [PStr (asc ''x.pdf'')]"
proof -
  let ?r1 = "PDict [(PStr (asc ''location''),
        PDict [(PStr (asc ''webLocation''),
          PDict [(PStr (asc ''url''), PStr (asc ''https://host/docs/Guide.pdf?v=2''))])]),
       (PStr (asc ''metadata''), PDict [(PStr (asc ''file_name''), PStr (asc ''other.pdf''))])]"
  let ?r2 = "PDict [(PStr (asc ''location''),
        PDict [(PStr (asc ''s3Location''),
          PDict [(PStr (asc ''uri''), PStr (asc ''s3://bucket/dir/''))])]),
       (PStr (asc ''metadata''), PDict [(PStr (asc ''file_name''), PStr (asc ''x.pdf''))])]"
  let ?tbl = "\<lambda>(s::pystr) (i::nat) (c::nat). [c]"
  have l1: "location_uri ?r1 = Inr (PStr (asc ''https://host/docs/Guide.pdf?v=2''))"
    by (simp add: location_uri_def get_or_empty_def py_or_def asc_def)
  have l2: "location_uri ?r2 = Inr (PStr (asc ''s3://bucket/dir/''))"
    by (simp add: location_uri_def get_or_empty_def py_or_def asc_def)
  have q1: "47 \<notin> set (query_part (asc ''https://host/docs/Guide.pdf?v=2''))"
    by (simp add: query_part_def asc_def)
  have q2: "47 \<notin> set (query_part (asc ''s3://bucket/dir/''))"
    by (simp add: query_part_def asc_def)
  have s1: "final_path_segment (asc ''https://host/docs/Guide.pdf?v=2'') = asc ''Guide.pdf''"
    by (simp add: final_path_segment_def strip_query_def last_piece_after_slash asc_def)
  have s2: "final_path_segment (asc ''s3://bucket/dir/'') = []"
    by (simp add: final_path_segment_def strip_query_def last_piece_after_slash asc_def)
  have p1: "suffix (asc ''.pdf'') (py_lower ?tbl (asc ''Guide.pdf''))"
    by (simp add: py_lower_def lower_cp_def asc_def suffix_def)
  have m2: "metadata_name ?r2 = Inr (PStr (asc ''x.pdf''))"
    by (simp add: metadata_name_def get_or_empty_def py_or_def asc_def)
  have k2: "is_pdf_name ?tbl (PStr (asc ''x.pdf'')) = Inr True"
    by (simp add: is_pdf_name_def py_lower_def lower_cp_def asc_def suffix_def)
  from pdf_name_from_location [OF l1 q1, of ?tbl] s1 p1
  have a: "pdf_name_of_ref ?r1 = Inr (PStr (asc ''Guide.pdf''))"
    and b: "extract_pdf_filenames_from_citations ?tbl (sequence_shape [[?r1]])
              = Inr [PStr (asc ''Guide.pdf'')]"
    by (simp_all add: asc_def)
  from pdf_name_from_location [OF l2 q2, of ?tbl] s2 m2 k2
  have c: "pdf_name_of_ref ?r2 = Inr (PStr (asc ''x.pdf''))"
    and d: "extract_pdf_filenames_from_citations ?tbl (sequence_shape [[?r2]])
              = Inr [PStr (asc ''x.pdf'')]"
    by simp_all
  from l1 q1 s1 a b l2 q2 s2 c d show ?thesis by (simp only: simp_thms)
qed

text \<open>
  Claim C7 as stated fails for a reference whose storage URI ends with a slash: its final
  path segment is empty, and the name used, and returned, is the metadata file name.
\<close>

theorem pdf_name_from_location_counterexample:
  "location_uri
     (PDict [(PStr (asc ''location''),
        PDict [(PStr (asc ''s3Location''),
          PDict [(PStr (asc ''uri''), PStr (asc ''s3://bucket/dir/''))])]),
       (PStr (asc ''metadata''), PDict [(PStr (asc ''file_name''), PStr (asc ''x.pdf''))])])
     = Inr (PStr (asc ''s3://bucket/dir/'')) \<and>
   final_path_segment (asc ''s3://bucket/dir/'') = [] \<and>
   extract_pdf_filenames_from_citations (\<lambda>s i c. [c])
     (PDict [(PStr (asc ''citations''),
        PList [PDict [(PStr (asc ''retrievedReferences''),
          PList [PDict [(PStr (asc ''location''),
                   PDict [(PStr (asc ''s3Location''),
                     PDict [(PStr (asc ''uri''), PStr (asc ''s3://bucket/dir/''))])]),
                  (PStr (asc ''metadata''),
                   PDict [(PStr (asc ''file_name''), PStr (asc ''x.pdf''))])]])]])])
     = Inr [PStr (asc ''x.pdf'')]"
  by (simp add: extract_pdf_filenames_from_citations_def collect_filenames_def
      retrieved_refs_def pdf_name_of_ref_def location_uri_def get_or_empty_def
      metadata_name_def py_or_def name_from_uri_def basename_before_query_def
      os_path_basename_def py_split_def is_pdf_name_def py_lower_def lower_cp_def dedup_def
      final_path_segment_def strip_query_def last_piece_after_slash asc_def suffix_def)

text \<open>
  With a slash in the query string the two differ: the base name of the whole string lies
  inside the query, and the final path segment before it.
\<close>

lemma slash_in_query_string:
  "name_from_uri (PStr (asc ''https://host/docs/Guide.pdf?next=/a.pdf'')) = PStr (asc ''a.pdf'')"
  "final_path_segment (asc ''https://host/docs/Guide.pdf?next=/a.pdf'') = asc ''Guide.pdf''"
  by (simp_all add: name_from_uri_code final_path_segment_def strip_query_def
      last_piece_after_slash asc_def)

section \<open>Shape equivalence\<close>

text \<open>
  Claim C4. For every list of references, each extractor gives on the sequence shape with
  the one group \<open>L\<close> what it gives on the mapping shape of \<open>L\<close>; and on the sequence shape
  of any groups what it gives on the mapping shape of their concatenation.
\<close>

theorem shape_equivalence:
  "extract_document_titles_from_citations (sequence_shape [L]) =
     extract_document_titles_from_citations (mapping_shape L) \<and>
   extract_pdf_filenames_from_citations tbl (sequence_shape [L]) =
     extract_pdf_filenames_from_citations tbl (mapping_shape L) \<and>
   extract_document_titles_from_citations (sequence_shape Ls) =
     extract_document_titles_from_citations (mapping_shape (concat Ls)) \<and>
   extract_pdf_filenames_from_citations tbl (sequence_shape Ls) =
     extract_pdf_filenames_from_citations tbl (mapping_shape (concat Ls))"
  by (simp add: extract_document_titles_from_citations_def
      extract_pdf_filenames_from_citations_def collect_titles_def collect_filenames_def
      retrieved_refs_mapping retrieved_refs_sequence)

section \<open>The scenarios of the specification\<close>

text \<open>
  Scenarios A, C and E of the specification, evaluated on the model, and the formatting
  step of scenario D on its de-duplicated sources \<^verbatim>\<open>["a.pdf", "b.pdf"]\<close>.
\<close>

lemma scenario_A:
  "extract_pdf_filenames_from_citations tbl
     (mapping_shape
        [PDict [(PStr (asc ''metadata''),
           PDict [(PStr (asc ''x-amz-bedrock-kb-document-title''), PStr (asc ''Guide.pdf''))])]])
     = Inr [PStr (asc ''Guide.pdf'')]"
  by (simp add: extract_pdf_filenames_from_citations_def collect_filenames_def
      retrieved_refs_mapping pdf_name_of_ref_def metadata_name_def location_uri_def
      get_or_empty_def py_or_def is_pdf_name_def py_lower_def lower_cp_def dedup_def
      asc_def suffix_def)

lemma scenario_C:
  "finalize_output (PStr (asc ''Point A - Point B - Point C'')) (PList [])
     = Inr (asc ''- Point A'' @ 10 # asc ''- Point B'' @ 10 # asc ''- Point C'' @ [10])"
  by (simp add: finalize_output_def format_one_line_bullets_def remove_bold_markdown_def
      py_or_def py_replace_def py_lstrip_def py_rstrip_def py_isspace_def asc_def)

lemma scenario_D:
  "finalize_output (PStr (asc ''**Bold** text''))
     (PList [PStr (asc ''a.pdf''), PStr (asc ''b.pdf'')])
     = Inr (asc ''Bold text'' @ paragraph_break @ asc ''Sources: a.pdf, b.pdf'' @ [10])"
  by (simp add: finalize_output_def format_one_line_bullets_def remove_bold_markdown_def
      py_or_def py_replace_def py_rstrip_def py_isspace_def join_value_def
      paragraph_break_def asc_def)

lemma scenario_E:
  "extract_document_titles_from_citations (PDict []) = Inr []"
  "extract_pdf_filenames_from_citations tbl PNone = Inr []"
  by (simp_all add: extract_document_titles_from_citations_def collect_titles_def
      extract_pdf_filenames_from_citations_def collect_filenames_def retrieved_refs_def
      py_or_def dedup_def)

section \<open>An exception that escapes\<close>

text \<open>
  Claim C1 at one input. The title of the only reference is a list, which is true, so it
  is appended; the \<^verbatim>\<open>try\<close> block ends normally, and the de-duplication after it asks
  whether a list is in a set: \<^verbatim>\<open>_extract_document_titles_from_citations\<close> raises
  \<^verbatim>\<open>TypeError\<close>. (By \<open>extract_pdf_filenames_returns\<close> the other extractor returns a
  list for every input, and by \<open>extract_titles_eq\<close> a list or a dictionary among the
  collected titles is the only way for the title extractor to raise.)
\<close>

theorem extract_titles_raises:
  "extract_document_titles_from_citations
     (PDict [(PStr (asc ''citations''),
        PDict [(PStr (asc ''retrievedReferences''),
          PList [PDict [(PStr (asc ''metadata''),
            PDict [(PStr (asc ''x-amz-bedrock-kb-document-title''),
                    PList [PStr (asc ''Guide'')])])]])])])
     = Inl TypeError"
  by (simp add: extract_document_titles_from_citations_def collect_titles_def
      retrieved_refs_def title_of_ref_def get_or_empty_def py_or_def dedup_def asc_def)

end
